theory Spec2Isabelle
  imports Complex_Main
begin

section \<open>JavaScript values\<close>

text \<open>
  A JavaScript number is a finite value, NaN or one of the two infinities. Finite values
  are modelled as real numbers with exact arithmetic (one zero, no rounding); the special
  values follow IEEE 754 as JavaScript applies it: every comparison with NaN is false,
  and \<open>Math.min\<close>, \<open>Math.max\<close> and \<open>Math.floor\<close> return NaN on NaN.
  The edges of the rectangles the codec computes are 2.5 or 63.5 plus a multiple of
  \<open>36 / 4 ^ 10\<close>, binary fractions of fewer than 30 significant bits, which a
  double holds without rounding.
\<close>

datatype jsnum = Num real | NaN | PosInf | NegInf

fun jneg :: "jsnum \<Rightarrow> jsnum" where
  "jneg (Num a) = Num (- a)"
| "jneg NaN = NaN"
| "jneg PosInf = NegInf"
| "jneg NegInf = PosInf"

fun jadd :: "jsnum \<Rightarrow> jsnum \<Rightarrow> jsnum" where
  "jadd (Num a) (Num b) = Num (a + b)"
| "jadd NaN _ = NaN"
| "jadd _ NaN = NaN"
| "jadd PosInf NegInf = NaN"
| "jadd NegInf PosInf = NaN"
| "jadd PosInf _ = PosInf"
| "jadd _ PosInf = PosInf"
| "jadd NegInf _ = NegInf"
| "jadd _ NegInf = NegInf"

definition jsub :: "jsnum \<Rightarrow> jsnum \<Rightarrow> jsnum" where
  "jsub a b = jadd a (jneg b)"

fun jmul :: "jsnum \<Rightarrow> jsnum \<Rightarrow> jsnum" where
  "jmul (Num a) (Num b) = Num (a * b)"
| "jmul NaN _ = NaN"
| "jmul _ NaN = NaN"
| "jmul (Num a) b = (if a = 0 then NaN else if 0 < a then b else jneg b)"
| "jmul a (Num b) = (if b = 0 then NaN else if 0 < b then a else jneg a)"
| "jmul PosInf b = b"
| "jmul NegInf b = jneg b"

fun jdiv :: "jsnum \<Rightarrow> jsnum \<Rightarrow> jsnum" where
  "jdiv (Num a) (Num b) =
     (if b = 0 then (if a = 0 then NaN else if 0 < a then PosInf else NegInf)
      else Num (a / b))"
| "jdiv NaN _ = NaN"
| "jdiv _ NaN = NaN"
| "jdiv (Num a) _ = Num 0"
| "jdiv PosInf (Num b) = (if 0 \<le> b then PosInf else NegInf)"
| "jdiv NegInf (Num b) = (if 0 \<le> b then NegInf else PosInf)"
| "jdiv _ _ = NaN"

fun jfloor :: "jsnum \<Rightarrow> jsnum" where
  "jfloor (Num a) = Num (of_int \<lfloor>a\<rfloor>)"
| "jfloor x = x"

fun jlt :: "jsnum \<Rightarrow> jsnum \<Rightarrow> bool" where
  "jlt (Num a) (Num b) = (a < b)"
| "jlt NaN _ = False"
| "jlt _ NaN = False"
| "jlt _ NegInf = False"
| "jlt NegInf _ = True"
| "jlt PosInf _ = False"
| "jlt _ PosInf = True"

definition jgt :: "jsnum \<Rightarrow> jsnum \<Rightarrow> bool" where
  "jgt a b = jlt b a"

definition jeq :: "jsnum \<Rightarrow> jsnum \<Rightarrow> bool" where
  \<comment> \<open>\<open>===\<close> on numbers\<close>
  "jeq a b = (a \<noteq> NaN \<and> a = b)"

definition jle :: "jsnum \<Rightarrow> jsnum \<Rightarrow> bool" where
  "jle a b = (jlt a b \<or> jeq a b)"

definition jmin :: "jsnum \<Rightarrow> jsnum \<Rightarrow> jsnum" where
  \<comment> \<open>\<open>Math.min\<close>\<close>
  "jmin a b = (if a = NaN \<or> b = NaN then NaN else if jlt a b then a else b)"

definition jmax :: "jsnum \<Rightarrow> jsnum \<Rightarrow> jsnum" where
  \<comment> \<open>\<open>Math.max\<close>\<close>
  "jmax a b = (if a = NaN \<or> b = NaN then NaN else if jlt a b then b else a)"

text \<open>
  An argument of \<open>encode\<close> and \<open>decode\<close> is any JavaScript value; the functions only
  ask for its \<open>typeof\<close>. \<open>JOther\<close> stands for every value that is neither a number nor
  a string. A string is a list of UTF-16 code units; a string argument is modelled with
  the code units U+0000 to U+00FF (ASCII and Latin-1), one per \<open>char\<close>.
\<close>

datatype jsval = JNumber jsnum | JString string | JOther

text \<open>
  \<open>String.prototype.toUpperCase\<close> follows the Unicode case mappings, which do not keep
  a string inside these 256 code units nor its length: the micro sign U+00B5 becomes
  U+039C, the sharp s U+00DF becomes the two letters \<open>SS\<close>, and the y with diaeresis
  U+00FF becomes U+0178. The letters a to z and the Latin-1 letters U+00E0 to U+00FE
  (the division sign U+00F7 apart) move down by 32; every other code unit is unchanged.
  The result is therefore a list of code unit numbers.
\<close>

type_synonym code_unit = nat

definition toUpperCase_unit :: "char \<Rightarrow> code_unit list" where
  "toUpperCase_unit c =
     (let n = (of_char c :: nat) in
      if 97 \<le> n \<and> n \<le> 122 then [n - 32]
      else if n = 181 then [924]
      else if n = 223 then [83, 83]
      else if (224 \<le> n \<and> n \<le> 246) \<or> (248 \<le> n \<and> n \<le> 254) then [n - 32]
      else if n = 255 then [376]
      else [n])"

definition toUpperCase :: "string \<Rightarrow> code_unit list" where
  "toUpperCase s = concat (map toUpperCase_unit s)"

definition strip_hyphens :: "string \<Rightarrow> string" where
  \<comment> \<open>\<open>s.replace(/-/g, '')\<close>\<close>
  "strip_hyphens s = filter (\<lambda>c. c \<noteq> CHR ''-'') s"

text \<open>
  Indexing an array with a number: an integer inside the array's range reads the
  element, everything else (a fraction, NaN, an infinity, an index out of range) reads
  \<open>undefined\<close>, here \<open>None\<close>.
\<close>

definition js_index :: "'a list \<Rightarrow> jsnum \<Rightarrow> 'a option" where
  "js_index xs i =
     (case i of
        Num r \<Rightarrow>
          if r = of_int \<lfloor>r\<rfloor> \<and> 0 \<le> r \<and> r < real (length xs) then Some (xs ! nat \<lfloor>r\<rfloor>)
          else None
      | _ \<Rightarrow> None)"

section \<open>Constants (lib/core/constants.js)\<close>

record 'a box =
  minLat :: 'a
  maxLat :: 'a
  minLon :: 'a
  maxLon :: 'a

definition DIGIPIN_GRID :: "char list list" where
  "DIGIPIN_GRID = [''FC98'', ''J327'', ''K456'', ''LMPT'']"

definition DIGIPIN_CHARS :: "char list" where
  \<comment> \<open>\<open>DIGIPIN_GRID.flat()\<close>\<close>
  "DIGIPIN_CHARS = concat DIGIPIN_GRID"

definition CHAR_TO_POSITION :: "char \<rightharpoonup> nat \<times> nat" where
  \<comment> \<open>filled by the two nested \<open>forEach\<close> over the grid; the value is \<open>{row, col}\<close>\<close>
  "CHAR_TO_POSITION =
     fold (\<lambda>(r, row). fold (\<lambda>(c, char) m. m(char \<mapsto> (r, c))) (enumerate 0 row))
       (enumerate 0 DIGIPIN_GRID) Map.empty"

definition BOUNDS :: "real box" where
  "BOUNDS = \<lparr>minLat = 2.5, maxLat = 38.5, minLon = 63.5, maxLon = 99.5\<rparr>"

text \<open>
  \<open>GRID_SIZES\<close>: an entry \<open>{level, width, distance}\<close> is the triple of the level, the
  documented cell width in degrees and the documented distance in metres.
\<close>

definition GRID_SIZES :: "(nat \<times> real \<times> real) list" where
  "GRID_SIZES =
     [(1, 9, 1000000),
      (2, 2.25, 250000),
      (3, 0.5625, 62500),
      (4, 0.140625, 15600),
      (5, 0.0351563, 3900),
      (6, 0.0087891, 1000),
      (7, 0.0021973, 250),
      (8, 0.0005493, 60),
      (9, 0.0001373, 15),
      (10, 0.0000343, 3.8)]"

section \<open>Errors\<close>

text \<open>
  Every failure of the library is a plain \<open>Error\<close> told apart by its message; the
  constructors name the messages. \<open>TypeError\<close> is the runtime's own error for reading
  a property of \<open>undefined\<close>.
\<close>

datatype error =
    CoordinatesError
      \<comment> \<open>'Latitude and longitude must be numbers'\<close>
  | PrecisionError
      \<comment> \<open>'Precision must be between 1 and 10'\<close>
  | LatitudeBoundsError jsnum
      \<comment> \<open>'Latitude \<dots> out of range'\<close>
  | LongitudeBoundsError jsnum
      \<comment> \<open>'Longitude \<dots> out of range'\<close>
  | TypeError
  | NotStringError
      \<comment> \<open>'DIGIPIN must be a string'\<close>
  | LengthError nat
      \<comment> \<open>'Invalid DIGIPIN length: \<dots>. Must be 1-10 characters.'\<close>
  | CharacterError code_unit nat
      \<comment> \<open>'Invalid character \<dots> at position \<dots>'\<close>
  | NoChildrenError
      \<comment> \<open>'Cannot get children of maximum precision DIGIPIN'\<close>
  | NoParentError
      \<comment> \<open>'Cannot get parent of minimum precision DIGIPIN'\<close>
  | BoundingBoxError
      \<comment> \<open>'Invalid bounding box coordinates'\<close>
  | CoverageError
      \<comment> \<open>'Bounding box extends outside DIGIPIN coverage area'\<close>

section \<open>The encoder (lib/core/encoder.js)\<close>

text \<open>
  The state of the loop is the working rectangle and the string built so far. One
  iteration is \<open>encode_body\<close>: it fails with the runtime's TypeError when
  \<open>DIGIPIN_GRID[row]\<close> is \<open>undefined\<close>, and appends the text \<open>undefined\<close> when only the
  column lookup is.
\<close>

definition encode_body ::
  "jsnum \<Rightarrow> jsnum \<Rightarrow> jsnum \<Rightarrow> nat \<Rightarrow> jsnum box \<times> string \<Rightarrow> error + jsnum box \<times> string" where
  "encode_body lat lon prec level st =
     (let b = fst st;
          latDiv = jdiv (jsub (maxLat b) (minLat b)) (Num 4);
          lonDiv = jdiv (jsub (maxLon b) (minLon b)) (Num 4);
          row0 = jsub (Num 3) (jfloor (jdiv (jsub lat (minLat b)) latDiv));
          col0 = jfloor (jdiv (jsub lon (minLon b)) lonDiv);
          row = jmax (Num 0) (jmin row0 (Num 3));
          col = jmax (Num 0) (jmin col0 (Num 3))
      in case js_index DIGIPIN_GRID row of
           None \<Rightarrow> Inl TypeError
         | Some gridRow \<Rightarrow>
             let digiPin = snd st @ (case js_index gridRow col of
                                       None \<Rightarrow> ''undefined''
                                     | Some ch \<Rightarrow> [ch]);
                 digiPin = (if jeq prec (Num 10) \<and> (level = 3 \<or> level = 6)
                            then digiPin @ ''-'' else digiPin);
                 maxLat' = jadd (minLat b) (jmul latDiv (jsub (Num 4) row));
                 minLat' = jadd (minLat b) (jmul latDiv (jsub (Num 3) row));
                 minLon' = jadd (minLon b) (jmul lonDiv col);
                 maxLon' = jadd minLon' lonDiv
             in Inr (\<lparr>minLat = minLat', maxLat = maxLat', minLon = minLon', maxLon = maxLon'\<rparr>,
                     digiPin))"

text \<open>
  The loop \<open>for (level = 1; level <= precision; level++)\<close>. The loop is entered only
  after the check \<open>precision > 10\<close> has not thrown and \<open>precision\<close> is never assigned,
  so that check is repeated in the loop condition, where it makes the recursion total.
\<close>

function encode_loop ::
  "jsnum \<Rightarrow> jsnum \<Rightarrow> jsnum \<Rightarrow> nat \<Rightarrow> jsnum box \<times> string \<Rightarrow> error + jsnum box \<times> string" where
  "encode_loop lat lon prec level st =
     (if jle (Num (real level)) prec \<and> \<not> jgt prec (Num 10) then
        (case encode_body lat lon prec level st of
           Inl e \<Rightarrow> Inl e
         | Inr st' \<Rightarrow> encode_loop lat lon prec (Suc level) st')
      else Inr st)"
  by pat_completeness auto
termination
proof (relation "measure (\<lambda>(lat, lon, prec, level, st). 11 - level)")
  show "wf (measure (\<lambda>(lat, lon, prec, level, st). 11 - level))"
    by simp
next
  fix lat lon prec :: jsnum and level :: nat and st st' :: "jsnum box \<times> string"
  assume "jle (Num (real level)) prec \<and> \<not> jgt prec (Num 10)"
  then have "level < 11"
    by (cases prec) (auto simp: jle_def jgt_def jeq_def)
  then show "((lat, lon, prec, Suc level, st'), (lat, lon, prec, level, st))
      \<in> measure (\<lambda>(lat, lon, prec, level, st). 11 - level)"
    by simp
qed

declare encode_loop.simps [simp del]

definition encode :: "jsval \<Rightarrow> jsval \<Rightarrow> jsnum \<Rightarrow> error + string" where
  "encode lat lon prec =
     (case (lat, lon) of
        (JNumber lat', JNumber lon') \<Rightarrow>
          if jlt prec (Num 1) \<or> jgt prec (Num 10) then Inl PrecisionError
          else if jlt lat' (Num (minLat BOUNDS)) \<or> jgt lat' (Num (maxLat BOUNDS))
            then Inl (LatitudeBoundsError lat')
          else if jlt lon' (Num (minLon BOUNDS)) \<or> jgt lon' (Num (maxLon BOUNDS))
            then Inl (LongitudeBoundsError lon')
          else
            (case encode_loop lat' lon' prec 1
                    (\<lparr>minLat = Num (minLat BOUNDS), maxLat = Num (maxLat BOUNDS),
                      minLon = Num (minLon BOUNDS), maxLon = Num (maxLon BOUNDS)\<rparr>, '''') of
               Inl e \<Rightarrow> Inl e
             | Inr st \<Rightarrow> Inr (snd st))
      | _ \<Rightarrow> Inl CoordinatesError)"

section \<open>The decoder (lib/core/decoder.js)\<close>

record bounds_nsew =
  north :: real
  south :: real
  east :: real
  west :: real

record accuracy_t =
  latDegrees :: real
  lonDegrees :: real
  approximateMeters :: real

record decoded =
  latitude :: real
  longitude :: real
  precision :: nat
  bounds :: bounds_nsew
  accuracy :: accuracy_t

text \<open>
  The decoder computes with the constants of \<open>BOUNDS\<close> and the grid positions only, so
  all its numbers are finite. The body of its loop, for a symbol at \<open>(ri, ci)\<close>:
\<close>

definition decode_step :: "real box \<Rightarrow> nat \<Rightarrow> nat \<Rightarrow> real box" where
  "decode_step b ri ci =
     (let latDiv = (maxLat b - minLat b) / 4;
          lonDiv = (maxLon b - minLon b) / 4;
          lat1 = maxLat b - latDiv * (real ri + 1);
          lat2 = maxLat b - latDiv * real ri;
          lon1 = minLon b + lonDiv * real ci;
          lon2 = minLon b + lonDiv * (real ci + 1)
      in \<lparr>minLat = lat1, maxLat = lat2, minLon = lon1, maxLon = lon2\<rparr>)"

text \<open>
  \<open>CHAR_TO_POSITION[char]\<close> for a code unit of the upper-cased string: the keys of the
  object are the sixteen symbols of the grid.
\<close>

definition position_of :: "code_unit \<Rightarrow> (nat \<times> nat) option" where
  "position_of u = (if u < 256 then CHAR_TO_POSITION (char_of u) else None)"

text \<open>
  The loop over the symbols of \<open>pin\<close>; the first argument is what is left of \<open>pin\<close>
  from index \<open>i\<close> on.
\<close>

fun decode_loop :: "code_unit list \<Rightarrow> nat \<Rightarrow> real box \<Rightarrow> error + real box" where
  "decode_loop [] i b = Inr b"
| "decode_loop (char # rest) i b =
     (case position_of char of
        None \<Rightarrow> Inl (CharacterError char (i + 1))
      | Some (ri, ci) \<Rightarrow> decode_loop rest (i + 1) (decode_step b ri ci))"

definition decode :: "jsval \<Rightarrow> error + decoded" where
  "decode digiPin =
     (case digiPin of
        JString s \<Rightarrow>
          let pin = toUpperCase (strip_hyphens s) in
          if length pin = 0 \<or> length pin > 10 then Inl (LengthError (length pin))
          else
            (case decode_loop pin 0 BOUNDS of
               Inl e \<Rightarrow> Inl e
             | Inr b \<Rightarrow>
                 let centerLat = (minLat b + maxLat b) / 2;
                     centerLon = (minLon b + maxLon b) / 2
                 in Inr \<lparr>latitude = centerLat,
                         longitude = centerLon,
                         precision = length pin,
                         bounds = \<lparr>north = maxLat b, south = minLat b,
                                   east = maxLon b, west = minLon b\<rparr>,
                         accuracy = \<lparr>latDegrees = maxLat b - minLat b,
                                     lonDegrees = maxLon b - minLon b,
                                     approximateMeters =
                                       max ((maxLat b - minLat b) * 111000)
                                           ((maxLon b - minLon b) * 111000
                                              * cos (centerLat * pi / 180))\<rparr>\<rparr>)
      | _ \<Rightarrow> Inl NotStringError)"

section \<open>Hierarchy navigation (lib/utils/neighbors.js)\<close>

text \<open>
  The eight compass offsets, in the order of the source: N, NE, E, SE, S, SW, W, NW.
\<close>

definition directions :: "real \<Rightarrow> real \<Rightarrow> (real \<times> real) list" where
  "directions latStep lonStep =
     [(latStep, 0), (latStep, lonStep), (0, lonStep), (- latStep, lonStep),
      (- latStep, 0), (- latStep, - lonStep), (0, - lonStep), (latStep, - lonStep)]"

text \<open>
  The callback of \<open>directions.forEach\<close>: the list is \<open>neighbors\<close>, \<open>push\<close> appends,
  and the \<open>catch\<close> block swallows every error of \<open>encode\<close>.
\<close>

definition neighbor_visit ::
  "real \<Rightarrow> real \<Rightarrow> nat \<Rightarrow> real \<times> real \<Rightarrow> string list \<Rightarrow> string list" where
  "neighbor_visit centerLat centerLon prec dir neighbors =
     (let newLat = centerLat + fst dir;
          newLon = centerLon + snd dir
      in if newLat \<ge> minLat BOUNDS \<and> newLat \<le> maxLat BOUNDS \<and>
            newLon \<ge> minLon BOUNDS \<and> newLon \<le> maxLon BOUNDS
         then (case encode (JNumber (Num newLat)) (JNumber (Num newLon)) (Num (real prec)) of
                 Inr neighborPin \<Rightarrow> neighbors @ [neighborPin]
               | Inl error \<Rightarrow> neighbors)
         else neighbors)"

definition getNeighbors :: "jsval \<Rightarrow> error + string list" where
  "getNeighbors digipin =
     (case decode digipin of
        Inl e \<Rightarrow> Inl e
      | Inr dec \<Rightarrow>
          let bnds = bounds dec;
              prec = precision dec;
              latStep = north bnds - south bnds;
              lonStep = east bnds - west bnds;
              centerLat = latitude dec;
              centerLon = longitude dec
          in Inr (fold (neighbor_visit centerLat centerLon prec)
                    (directions latStep lonStep) []))"

text \<open>
  \<open>getChildren\<close> and \<open>getParent\<close> call \<open>replace\<close> on their argument at once, so the
  argument is a string. \<open>slice(0, 3)\<close>, \<open>slice(3, 6)\<close> and \<open>slice(6)\<close> of the
  ten-symbol child are \<open>take\<close> and \<open>drop\<close>; \<open>slice(0, -1)\<close> is \<open>butlast\<close>.
\<close>

definition getChildren :: "string \<Rightarrow> error + string list" where
  "getChildren digipin =
     (let cleanPin = strip_hyphens digipin in
      if length cleanPin \<ge> 10 then Inl NoChildrenError
      else Inr (map (\<lambda>char.
                  let childPin = cleanPin @ [char] in
                  if length childPin = 10
                  then take 3 childPin @ ''-'' @ take 3 (drop 3 childPin) @ ''-'' @ drop 6 childPin
                  else childPin)
                (concat DIGIPIN_GRID)))"

definition getParent :: "string \<Rightarrow> error + string" where
  "getParent digipin =
     (let cleanPin = strip_hyphens digipin in
      if length cleanPin \<le> 1 then Inl NoParentError
      else Inr (butlast cleanPin))"

section \<open>Grid generation (lib/utils/grid.js)\<close>

text \<open>
  The precision handed to \<open>generateGrid\<close> and the four edges of the bounding box are
  finite numbers. The loop \<open>for (i = 1; i < precision; i++) cellSize /= 4\<close>:
\<close>

function cellSize_loop :: "real \<Rightarrow> nat \<Rightarrow> real \<Rightarrow> real" where
  "cellSize_loop prec i cellSize =
     (if real i < prec then cellSize_loop prec (Suc i) (cellSize / 4) else cellSize)"
  by pat_completeness auto
termination
proof (relation "measure (\<lambda>(prec, i, cellSize). nat \<lceil>prec\<rceil> - i)")
  show "wf (measure (\<lambda>(prec, i, cellSize). nat \<lceil>prec\<rceil> - i))"
    by simp
next
  fix prec cellSize :: real and i :: nat
  assume "real i < prec"
  then have "int i < \<lceil>prec\<rceil>"
    by (simp add: less_ceiling_iff)
  then show "((prec, Suc i, cellSize / 4), (prec, i, cellSize))
      \<in> measure (\<lambda>(prec, i, cellSize). nat \<lceil>prec\<rceil> - i)"
    by simp
qed

declare cellSize_loop.simps [simp del]

text \<open>
  \<open>digipins\<close> is a \<open>Set\<close>: it keeps the order of first insertion, which
  \<open>Array.from\<close> returns.
\<close>

definition set_add :: "'a \<Rightarrow> 'a list \<Rightarrow> 'a list" where
  "set_add x xs = (if x \<in> set xs then xs else xs @ [x])"

definition grid_visit :: "real \<Rightarrow> real \<Rightarrow> real \<Rightarrow> string list \<Rightarrow> string list" where
  \<comment> \<open>the body of the inner loop\<close>
  "grid_visit lat lon prec digipins =
     (if lat \<ge> minLat BOUNDS \<and> lat \<le> maxLat BOUNDS \<and>
         lon \<ge> minLon BOUNDS \<and> lon \<le> maxLon BOUNDS
      then (case encode (JNumber (Num lat)) (JNumber (Num lon)) (Num prec) of
              Inr digipin \<Rightarrow> set_add digipin digipins
            | Inl error \<Rightarrow> digipins)
      else digipins)"

text \<open>
  The two sampling loops step by \<open>cellSize\<close>, which is 36 divided by a power of 4 and
  so positive; the conjunct \<open>0 < cellSize\<close> states that and makes the recursions total.
\<close>

function lon_loop ::
  "real \<Rightarrow> real \<Rightarrow> real \<Rightarrow> real \<Rightarrow> real \<Rightarrow> string list \<Rightarrow> string list" where
  "lon_loop lat lon east_edge cellSize prec digipins =
     (if lon \<le> east_edge \<and> 0 < cellSize
      then lon_loop lat (lon + cellSize) east_edge cellSize prec (grid_visit lat lon prec digipins)
      else digipins)"
  by pat_completeness auto
termination
proof (relation "measure (\<lambda>(lat, lon, east_edge, cellSize, prec, digipins).
                    nat (\<lfloor>(east_edge - lon) / cellSize\<rfloor> + 1))")
  show "wf (measure (\<lambda>(lat, lon, east_edge, cellSize, prec, digipins).
                    nat (\<lfloor>(east_edge - lon) / cellSize\<rfloor> + 1)))"
    by simp
next
  fix lat lon east_edge cellSize prec :: real and digipins :: "string list"
  assume a: "lon \<le> east_edge \<and> 0 < cellSize"
  then have "(east_edge - (lon + cellSize)) / cellSize = (east_edge - lon) / cellSize - 1"
    by (simp add: field_simps)
  moreover have "0 \<le> \<lfloor>(east_edge - lon) / cellSize\<rfloor>"
    using a by simp
  ultimately show "((lat, lon + cellSize, east_edge, cellSize, prec, grid_visit lat lon prec digipins),
        (lat, lon, east_edge, cellSize, prec, digipins))
      \<in> measure (\<lambda>(lat, lon, east_edge, cellSize, prec, digipins).
                    nat (\<lfloor>(east_edge - lon) / cellSize\<rfloor> + 1))"
    by simp
qed

declare lon_loop.simps [simp del]

function lat_loop ::
  "real \<Rightarrow> real \<Rightarrow> real \<Rightarrow> real \<Rightarrow> real \<Rightarrow> real \<Rightarrow> string list \<Rightarrow> string list" where
  "lat_loop lat north_edge lonStart east_edge cellSize prec digipins =
     (if lat \<le> north_edge \<and> 0 < cellSize
      then lat_loop (lat + cellSize) north_edge lonStart east_edge cellSize prec
             (lon_loop lat lonStart east_edge cellSize prec digipins)
      else digipins)"
  by pat_completeness auto
termination
proof (relation "measure (\<lambda>(lat, north_edge, lonStart, east_edge, cellSize, prec, digipins).
                    nat (\<lfloor>(north_edge - lat) / cellSize\<rfloor> + 1))")
  show "wf (measure (\<lambda>(lat, north_edge, lonStart, east_edge, cellSize, prec, digipins).
                    nat (\<lfloor>(north_edge - lat) / cellSize\<rfloor> + 1)))"
    by simp
next
  fix lat north_edge lonStart east_edge cellSize prec :: real and digipins :: "string list"
  assume a: "lat \<le> north_edge \<and> 0 < cellSize"
  then have "(north_edge - (lat + cellSize)) / cellSize = (north_edge - lat) / cellSize - 1"
    by (simp add: field_simps)
  moreover have "0 \<le> \<lfloor>(north_edge - lat) / cellSize\<rfloor>"
    using a by simp
  ultimately show "((lat + cellSize, north_edge, lonStart, east_edge, cellSize, prec,
         lon_loop lat lonStart east_edge cellSize prec digipins),
        (lat, north_edge, lonStart, east_edge, cellSize, prec, digipins))
      \<in> measure (\<lambda>(lat, north_edge, lonStart, east_edge, cellSize, prec, digipins).
                    nat (\<lfloor>(north_edge - lat) / cellSize\<rfloor> + 1))"
    by simp
qed

declare lat_loop.simps [simp del]

definition generateGrid :: "bounds_nsew \<Rightarrow> real \<Rightarrow> error + string list" where
  "generateGrid bbox prec =
     (if south bbox \<ge> north bbox \<or> west bbox \<ge> east bbox then Inl BoundingBoxError
      else if south bbox < minLat BOUNDS \<or> north bbox > maxLat BOUNDS \<or>
              west bbox < minLon BOUNDS \<or> east bbox > maxLon BOUNDS then Inl CoverageError
      else
        let cellSize = cellSize_loop prec 1 36;
            latStart = of_int \<lfloor>south bbox / cellSize\<rfloor> * cellSize;
            lonStart = of_int \<lfloor>west bbox / cellSize\<rfloor> * cellSize
        in Inr (lat_loop latStart (north bbox) lonStart (east bbox) cellSize prec []))"

section \<open>Notions used in the proofs\<close>

text \<open>
  \<open>num_box\<close> reads a rectangle of finite numbers as the encoder's state, \<open>inside\<close> and
  \<open>proper\<close> are containment of a point and non-emptiness of a rectangle, \<open>clamp03\<close> is
  the clamp of a row or column index to 0..3, \<open>emit\<close> is the text the encoder's loop
  appends for a list of symbols from a given level on, \<open>units\<close> gives the code
  unit numbers of a string, \<open>sanitize\<close> is the normal form of a code written in ASCII
  (separators removed, the letters a to z in upper case; for such a code it is what
  \<open>toUpperCase\<close> computes, lemma \<open>toUpperCase_sanitize\<close>), \<open>group_334\<close> is the display format of a ten-symbol
  code, and \<open>aligned k\<close> says that a rectangle is one cell of the regular grid of
  \<open>4 ^ k\<close> by \<open>4 ^ k\<close> cells over the root rectangle.
\<close>

definition num_box :: "real box \<Rightarrow> jsnum box" where
  "num_box b = \<lparr>minLat = Num (minLat b), maxLat = Num (maxLat b),
                minLon = Num (minLon b), maxLon = Num (maxLon b)\<rparr>"

definition inside :: "real box \<Rightarrow> real \<Rightarrow> real \<Rightarrow> bool" where
  "inside b x y \<longleftrightarrow> minLat b \<le> x \<and> x \<le> maxLat b \<and> minLon b \<le> y \<and> y \<le> maxLon b"

definition proper :: "real box \<Rightarrow> bool" where
  "proper b \<longleftrightarrow> minLat b < maxLat b \<and> minLon b < maxLon b"

definition clamp03 :: "int \<Rightarrow> nat" where
  "clamp03 k = nat (max 0 (min k 3))"

fun emit :: "jsnum \<Rightarrow> nat \<Rightarrow> string \<Rightarrow> string" where
  "emit prec level [] = []"
| "emit prec level (c # cs) =
     c # (if jeq prec (Num 10) \<and> (level = 3 \<or> level = 6) then ''-'' else [])
       @ emit prec (Suc level) cs"

definition ascii_upper :: "char \<Rightarrow> char" where
  "ascii_upper c =
     (case map_of (zip ''abcdefghijklmnopqrstuvwxyz'' ''ABCDEFGHIJKLMNOPQRSTUVWXYZ'') c of
        Some u \<Rightarrow> u
      | None \<Rightarrow> c)"

definition sanitize :: "string \<Rightarrow> string" where
  "sanitize s = map ascii_upper (strip_hyphens s)"

definition units :: "string \<Rightarrow> code_unit list" where
  "units s = map of_char s"

definition group_334 :: "string \<Rightarrow> string" where
  "group_334 s = take 3 s @ ''-'' @ take 3 (drop 3 s) @ ''-'' @ drop 6 s"

definition aligned :: "nat \<Rightarrow> real box \<Rightarrow> bool" where
  "aligned k b \<longleftrightarrow>
     (\<exists>i j. i < 4 ^ k \<and> j < 4 ^ k
        \<and> minLat b = minLat BOUNDS + real i * (36 / 4 ^ k)
        \<and> maxLat b = minLat BOUNDS + (real i + 1) * (36 / 4 ^ k)
        \<and> minLon b = minLon BOUNDS + real j * (36 / 4 ^ k)
        \<and> maxLon b = minLon BOUNDS + (real j + 1) * (36 / 4 ^ k))"

section \<open>The grid and its reverse map\<close>

lemma CHAR_TO_POSITION_eq: "CHAR_TO_POSITION = [CHR ''F'' \<mapsto> (0,0), CHR ''C'' \<mapsto> (0,1), CHR ''9'' \<mapsto> (0,2), CHR ''8'' \<mapsto> (0,3),
  CHR ''J'' \<mapsto> (1,0), CHR ''3'' \<mapsto> (1,1), CHR ''2'' \<mapsto> (1,2), CHR ''7'' \<mapsto> (1,3),
  CHR ''K'' \<mapsto> (2,0), CHR ''4'' \<mapsto> (2,1), CHR ''5'' \<mapsto> (2,2), CHR ''6'' \<mapsto> (2,3),
  CHR ''L'' \<mapsto> (3,0), CHR ''M'' \<mapsto> (3,1), CHR ''P'' \<mapsto> (3,2), CHR ''T'' \<mapsto> (3,3)]"
  by (simp add: CHAR_TO_POSITION_def DIGIPIN_GRID_def enumerate_eq_zip upt_rec eval_nat_numeral)

lemma CHAR_TO_POSITION_None: "CHAR_TO_POSITION c = None \<longleftrightarrow> c \<notin> set DIGIPIN_CHARS"
  by (simp add: CHAR_TO_POSITION_eq DIGIPIN_CHARS_def DIGIPIN_GRID_def)

lemma dom_CHAR_TO_POSITION: "dom CHAR_TO_POSITION = set DIGIPIN_CHARS"
proof (rule set_eqI)
  fix c show "(c \<in> dom CHAR_TO_POSITION) = (c \<in> set DIGIPIN_CHARS)"
    by (simp only: domIff CHAR_TO_POSITION_None not_not)
qed

lemma lt4_cases: "(n::nat) < 4 \<Longrightarrow> n = 0 \<or> n = 1 \<or> n = 2 \<or> n = 3"
  by arith

lemma grid_position:
  assumes "ri < 4" "ci < 4"
  shows "CHAR_TO_POSITION (DIGIPIN_GRID ! ri ! ci) = Some (ri, ci)"
  using lt4_cases[OF assms(1)] lt4_cases[OF assms(2)]
  by (elim disjE; simp add: CHAR_TO_POSITION_eq DIGIPIN_GRID_def)

lemma position_grid:
  assumes "CHAR_TO_POSITION c = Some (ri, ci)"
  shows "ri < 4 \<and> ci < 4 \<and> DIGIPIN_GRID ! ri ! ci = c"
  using assms by (simp add: CHAR_TO_POSITION_eq DIGIPIN_GRID_def split: if_splits)

lemma grid_in_chars: "ri < 4 \<Longrightarrow> ci < 4 \<Longrightarrow> DIGIPIN_GRID ! ri ! ci \<in> set DIGIPIN_CHARS"
  using grid_position[of ri ci] dom_CHAR_TO_POSITION by blast

lemma ascii_upper_grid_char:
  "ascii_upper (CHR ''F'') = CHR ''F''" "ascii_upper (CHR ''C'') = CHR ''C''"
  "ascii_upper (CHR ''9'') = CHR ''9''" "ascii_upper (CHR ''8'') = CHR ''8''"
  "ascii_upper (CHR ''J'') = CHR ''J''" "ascii_upper (CHR ''3'') = CHR ''3''"
  "ascii_upper (CHR ''2'') = CHR ''2''" "ascii_upper (CHR ''7'') = CHR ''7''"
  "ascii_upper (CHR ''K'') = CHR ''K''" "ascii_upper (CHR ''4'') = CHR ''4''"
  "ascii_upper (CHR ''5'') = CHR ''5''" "ascii_upper (CHR ''6'') = CHR ''6''"
  "ascii_upper (CHR ''L'') = CHR ''L''" "ascii_upper (CHR ''M'') = CHR ''M''"
  "ascii_upper (CHR ''P'') = CHR ''P''" "ascii_upper (CHR ''T'') = CHR ''T''"
  by (simp_all add: ascii_upper_def)

lemma grid_char_plain:
  assumes "c \<in> set DIGIPIN_CHARS"
  shows "c \<noteq> CHR ''-'' \<and> ascii_upper c = c"
proof -
  from assms have "c = CHR ''F'' \<or> c = CHR ''C'' \<or> c = CHR ''9'' \<or> c = CHR ''8''
    \<or> c = CHR ''J'' \<or> c = CHR ''3'' \<or> c = CHR ''2'' \<or> c = CHR ''7''
    \<or> c = CHR ''K'' \<or> c = CHR ''4'' \<or> c = CHR ''5'' \<or> c = CHR ''6''
    \<or> c = CHR ''L'' \<or> c = CHR ''M'' \<or> c = CHR ''P'' \<or> c = CHR ''T''"
    by (simp add: DIGIPIN_CHARS_def DIGIPIN_GRID_def)
  then show ?thesis
    by (elim disjE; simp add: ascii_upper_grid_char)
qed

section \<open>Code units and upper-casing\<close>

lemma units_Nil: "units [] = []"
  by (simp add: units_def)

lemma units_Cons: "units (c # cs) = of_char c # units cs"
  by (simp add: units_def)

lemma units_append: "units (xs @ ys) = units xs @ units ys"
  by (simp add: units_def)

lemma length_units [simp]: "length (units s) = length s"
  by (simp add: units_def)

lemma units_eq_Nil [simp]: "units s = [] \<longleftrightarrow> s = []"
  by (simp add: units_def)

lemma unit_less_256: "u \<in> set (units s) \<Longrightarrow> u < 256"
  by (auto simp: units_def)

lemma position_of_char: "position_of (of_char c) = CHAR_TO_POSITION c"
  by (simp add: position_of_def)

lemma position_of_Some:
  assumes "position_of u = Some (ri, ci)"
  shows "ri < 4 \<and> ci < 4 \<and> u = of_char (DIGIPIN_GRID ! ri ! ci)"
proof -
  from assms have u: "u < 256" and pos: "CHAR_TO_POSITION (char_of u) = Some (ri, ci)"
    by (simp_all add: position_of_def split: if_splits)
  from position_grid[OF pos] have g: "ri < 4" "ci < 4" "DIGIPIN_GRID ! ri ! ci = char_of u"
    by simp_all
  have "(of_char (char_of u :: char) :: nat) = u"
    using u by simp
  with g show ?thesis by simp
qed

lemma position_of_None: "position_of u = None \<longleftrightarrow> u \<notin> set (units DIGIPIN_CHARS)"
proof (cases "u < 256")
  case True
  then have u: "(of_char (char_of u :: char) :: nat) = u"
    by simp
  have "char_of u \<in> set DIGIPIN_CHARS \<longleftrightarrow> u \<in> set (units DIGIPIN_CHARS)"
  proof
    assume "char_of u \<in> set DIGIPIN_CHARS"
    then have "of_char (char_of u :: char) \<in> set (units DIGIPIN_CHARS)"
      unfolding units_def by (simp only: set_map) (rule imageI)
    then show "u \<in> set (units DIGIPIN_CHARS)"
      by (simp only: u)
  next
    assume "u \<in> set (units DIGIPIN_CHARS)"
    then obtain c where "c \<in> set DIGIPIN_CHARS" "u = of_char c"
      by (auto simp: units_def)
    then show "char_of u \<in> set DIGIPIN_CHARS"
      by simp
  qed
  with True show ?thesis
    by (simp add: position_of_def CHAR_TO_POSITION_None)
next
  case False
  then have "u \<notin> set (units DIGIPIN_CHARS)"
    using unit_less_256 by blast
  with False show ?thesis
    by (simp add: position_of_def)
qed

lemma upper_table:
  assumes "map_of (zip ''abcdefghijklmnopqrstuvwxyz'' ''ABCDEFGHIJKLMNOPQRSTUVWXYZ'') c = Some u"
  shows "toUpperCase_unit c = [of_char u]"
  using assms by (auto simp: toUpperCase_unit_def split: if_splits)

lemma toUpperCase_unit_grid_char:
  assumes "c \<in> set DIGIPIN_CHARS"
  shows "toUpperCase_unit c = [of_char c]"
proof -
  from assms have "c = CHR ''F'' \<or> c = CHR ''C'' \<or> c = CHR ''9'' \<or> c = CHR ''8''
    \<or> c = CHR ''J'' \<or> c = CHR ''3'' \<or> c = CHR ''2'' \<or> c = CHR ''7''
    \<or> c = CHR ''K'' \<or> c = CHR ''4'' \<or> c = CHR ''5'' \<or> c = CHR ''6''
    \<or> c = CHR ''L'' \<or> c = CHR ''M'' \<or> c = CHR ''P'' \<or> c = CHR ''T''"
    by (simp add: DIGIPIN_CHARS_def DIGIPIN_GRID_def)
  then show ?thesis
    by (elim disjE; simp add: toUpperCase_unit_def)
qed

lemma toUpperCase_unit_ascii:
  assumes "ascii_upper c \<in> set DIGIPIN_CHARS"
  shows "toUpperCase_unit c = [of_char (ascii_upper c)]"
proof (cases "map_of (zip ''abcdefghijklmnopqrstuvwxyz'' ''ABCDEFGHIJKLMNOPQRSTUVWXYZ'') c")
  case None
  then have "ascii_upper c = c"
    by (simp add: ascii_upper_def)
  with assms show ?thesis
    by (simp add: toUpperCase_unit_grid_char)
next
  case (Some u)
  then have "ascii_upper c = u"
    by (simp add: ascii_upper_def)
  with upper_table[OF Some] show ?thesis
    by simp
qed

lemma toUpperCase_ascii:
  assumes "\<forall>c\<in>set xs. ascii_upper c \<in> set DIGIPIN_CHARS"
  shows "toUpperCase xs = units (map ascii_upper xs)"
  using assms
  by (induction xs) (simp_all add: toUpperCase_def units_def toUpperCase_unit_ascii)

lemma toUpperCase_sanitize:
  assumes "set (sanitize s) \<subseteq> set DIGIPIN_CHARS"
  shows "toUpperCase (strip_hyphens s) = units (sanitize s)"
  unfolding sanitize_def using assms
  by (intro toUpperCase_ascii) (auto simp: sanitize_def)

lemma decode_loop_units_Cons:
  "decode_loop (units (c # cs)) i b =
     (case CHAR_TO_POSITION c of
        None \<Rightarrow> Inl (CharacterError (of_char c) (i + 1))
      | Some (ri, ci) \<Rightarrow> decode_loop (units cs) (i + 1) (decode_step b ri ci))"
  by (simp add: units_Cons position_of_char del: of_char_Char)

section \<open>Finite numbers in the encoder\<close>

lemma jsub_Num [simp]: "jsub (Num a) (Num b) = Num (a - b)"
  by (simp add: jsub_def)

lemma jcmp_Num [simp]:
  "jle (Num a) (Num b) = (a \<le> b)" "jgt (Num a) (Num b) = (b < a)" "jeq (Num a) (Num b) = (a = b)"
  by (auto simp: jle_def jgt_def jeq_def)

lemma clamp_Num: "jmax (Num 0) (jmin (Num (of_int k)) (Num 3)) = Num (real (clamp03 k))"
  by (auto simp: jmax_def jmin_def clamp03_def max_def min_def)

lemma clamp03_lt4: "clamp03 k < 4"
  by (auto simp: clamp03_def)

lemma js_index_nat: "n < length xs \<Longrightarrow> js_index xs (Num (real n)) = Some (xs ! n)"
  by (simp add: js_index_def)

lemma grid_row_length: "ri < 4 \<Longrightarrow> length (DIGIPIN_GRID ! ri) = 4"
  using lt4_cases[of ri] by (auto simp: DIGIPIN_GRID_def)

subsection \<open>The quadrant of a point\<close>

lemma quadrant_lat:
  fixes lo hi x :: real
  assumes "lo < hi" "lo \<le> x" "x \<le> hi"
  defines "d \<equiv> (hi - lo) / 4"
  defines "r \<equiv> real (clamp03 (3 - \<lfloor>(x - lo) / d\<rfloor>))"
  shows "lo + d * (3 - r) \<le> x \<and> x \<le> lo + d * (4 - r)"
proof -
  have d: "0 < d" using assms by simp
  define q where "q = (x - lo) / d"
  have q0: "0 \<le> q" using assms d by (simp add: q_def)
  have q4: "q \<le> 4" using assms d by (simp add: q_def field_simps)
  have x: "x = lo + d * q" using d by (simp add: q_def)
  have f0: "0 \<le> \<lfloor>q\<rfloor>" using q0 by simp
  have f4: "\<lfloor>q\<rfloor> \<le> 4" using q4 by (simp add: floor_le_iff)
  show ?thesis
  proof (cases "\<lfloor>q\<rfloor> = 4")
    case True
    then have "4 \<le> q" using of_int_floor_le[of q] by simp
    with q4 have "q = 4" by simp
    moreover have "r = 0" using True by (simp add: r_def q_def[symmetric] clamp03_def)
    ultimately show ?thesis using d x by simp
  next
    case False
    with f4 have f3: "\<lfloor>q\<rfloor> \<le> 3" by linarith
    then have r: "r = 3 - of_int \<lfloor>q\<rfloor>"
      using f0 by (simp add: r_def q_def[symmetric] clamp03_def)
    have "of_int \<lfloor>q\<rfloor> \<le> q" "q < of_int \<lfloor>q\<rfloor> + 1" by linarith+
    then have "d * of_int \<lfloor>q\<rfloor> \<le> d * q" "d * q \<le> d * (of_int \<lfloor>q\<rfloor> + 1)"
      using d by simp_all
    then show ?thesis unfolding r x by (simp add: algebra_simps)
  qed
qed

lemma quadrant_lon:
  fixes lo hi y :: real
  assumes "lo < hi" "lo \<le> y" "y \<le> hi"
  defines "d \<equiv> (hi - lo) / 4"
  defines "c \<equiv> real (clamp03 \<lfloor>(y - lo) / d\<rfloor>)"
  shows "lo + d * c \<le> y \<and> y \<le> lo + d * (c + 1)"
proof -
  have d: "0 < d" using assms by simp
  define q where "q = (y - lo) / d"
  have q0: "0 \<le> q" using assms d by (simp add: q_def)
  have q4: "q \<le> 4" using assms d by (simp add: q_def field_simps)
  have y: "y = lo + d * q" using d by (simp add: q_def)
  have f0: "0 \<le> \<lfloor>q\<rfloor>" using q0 by simp
  have f4: "\<lfloor>q\<rfloor> \<le> 4" using q4 by (simp add: floor_le_iff)
  show ?thesis
  proof (cases "\<lfloor>q\<rfloor> = 4")
    case True
    then have "4 \<le> q" using of_int_floor_le[of q] by simp
    with q4 have "q = 4" by simp
    moreover have "c = 3" using True by (simp add: c_def q_def[symmetric] clamp03_def)
    ultimately show ?thesis using d y by simp
  next
    case False
    with f4 have f3: "\<lfloor>q\<rfloor> \<le> 3" by linarith
    then have c: "c = of_int \<lfloor>q\<rfloor>"
      using f0 by (simp add: c_def q_def[symmetric] clamp03_def)
    have "of_int \<lfloor>q\<rfloor> \<le> q" "q < of_int \<lfloor>q\<rfloor> + 1" by linarith+
    then have "d * of_int \<lfloor>q\<rfloor> \<le> d * q" "d * q \<le> d * (of_int \<lfloor>q\<rfloor> + 1)"
      using d by simp_all
    then show ?thesis unfolding c y by (simp add: algebra_simps)
  qed
qed

lemma proper_divs:
  assumes "proper b"
  shows "0 < (maxLat b - minLat b) / 4" "0 < (maxLon b - minLon b) / 4"
  using assms by (simp_all add: proper_def)

lemma encode_body_Num:
  assumes "proper b" "inside b x y"
  defines "ri \<equiv> clamp03 (3 - \<lfloor>(x - minLat b) / ((maxLat b - minLat b) / 4)\<rfloor>)"
  defines "ci \<equiv> clamp03 \<lfloor>(y - minLon b) / ((maxLon b - minLon b) / 4)\<rfloor>"
  shows "encode_body (Num x) (Num y) prec level (num_box b, s) =
           Inr (num_box (decode_step b ri ci),
                s @ [DIGIPIN_GRID ! ri ! ci]
                  @ (if jeq prec (Num 10) \<and> (level = 3 \<or> level = 6) then ''-'' else []))"
proof -
  define latDiv where "latDiv = (maxLat b - minLat b) / 4"
  define lonDiv where "lonDiv = (maxLon b - minLon b) / 4"
  have d: "latDiv \<noteq> 0" "lonDiv \<noteq> 0"
    using proper_divs[OF assms(1)] by (simp_all add: latDiv_def lonDiv_def)
  have row0: "jsub (Num 3) (jfloor (jdiv (jsub (Num x) (Num (minLat b))) (Num latDiv)))
      = Num (of_int (3 - \<lfloor>(x - minLat b) / latDiv\<rfloor>))"
    using d by simp
  have col0: "jfloor (jdiv (jsub (Num y) (Num (minLon b))) (Num lonDiv))
      = Num (of_int \<lfloor>(y - minLon b) / lonDiv\<rfloor>)"
    using d by simp
  have row: "jmax (Num 0) (jmin (jsub (Num 3) (jfloor (jdiv (jsub (Num x) (Num (minLat b))) (Num latDiv)))) (Num 3))
      = Num (real ri)"
    unfolding row0 clamp_Num by (simp add: ri_def latDiv_def)
  have col: "jmax (Num 0) (jmin (jfloor (jdiv (jsub (Num y) (Num (minLon b))) (Num lonDiv))) (Num 3))
      = Num (real ci)"
    unfolding col0 clamp_Num by (simp add: ci_def lonDiv_def)
  have ri: "ri < 4" and ci: "ci < 4"
    by (simp_all add: ri_def ci_def clamp03_lt4)
  have g1: "js_index DIGIPIN_GRID (Num (real ri)) = Some (DIGIPIN_GRID ! ri)"
    using ri by (intro js_index_nat) (simp add: DIGIPIN_GRID_def)
  have g2: "js_index (DIGIPIN_GRID ! ri) (Num (real ci)) = Some (DIGIPIN_GRID ! ri ! ci)"
    using ci grid_row_length[OF ri] by (intro js_index_nat) simp
  have divs: "jdiv (jsub (Num (maxLat b)) (Num (minLat b))) (Num 4) = Num latDiv"
       "jdiv (jsub (Num (maxLon b)) (Num (minLon b))) (Num 4) = Num lonDiv"
    by (simp_all add: latDiv_def lonDiv_def)
  have box: "\<lparr>minLat = jadd (Num (minLat b)) (jmul (Num latDiv) (jsub (Num 3) (Num (real ri)))),
              maxLat = jadd (Num (minLat b)) (jmul (Num latDiv) (jsub (Num 4) (Num (real ri)))),
              minLon = jadd (Num (minLon b)) (jmul (Num lonDiv) (Num (real ci))),
              maxLon = jadd (jadd (Num (minLon b)) (jmul (Num lonDiv) (Num (real ci)))) (Num lonDiv)\<rparr>
            = num_box (decode_step b ri ci)"
    by (simp add: num_box_def decode_step_def Let_def latDiv_def lonDiv_def field_simps)
  show ?thesis
    by (simp only: encode_body_def Let_def fst_conv snd_conv num_box_def[of b] box.select_convs
          divs row col g1 g2 option.case box) simp
qed

lemma decode_step_inside:
  assumes "proper b" "inside b x y"
  defines "ri \<equiv> clamp03 (3 - \<lfloor>(x - minLat b) / ((maxLat b - minLat b) / 4)\<rfloor>)"
  defines "ci \<equiv> clamp03 \<lfloor>(y - minLon b) / ((maxLon b - minLon b) / 4)\<rfloor>"
  shows "inside (decode_step b ri ci) x y"
proof -
  have lat: "minLat b + (maxLat b - minLat b) / 4 * (3 - real ri) \<le> x
      \<and> x \<le> minLat b + (maxLat b - minLat b) / 4 * (4 - real ri)"
    unfolding ri_def using assms(1,2) by (intro quadrant_lat) (simp_all add: proper_def inside_def)
  have lon: "minLon b + (maxLon b - minLon b) / 4 * real ci \<le> y
      \<and> y \<le> minLon b + (maxLon b - minLon b) / 4 * (real ci + 1)"
    unfolding ci_def using assms(1,2) by (intro quadrant_lon) (simp_all add: proper_def inside_def)
  have "maxLat b - (maxLat b - minLat b) / 4 * (real ri + 1)
      = minLat b + (maxLat b - minLat b) / 4 * (3 - real ri)"
    "maxLat b - (maxLat b - minLat b) / 4 * real ri
      = minLat b + (maxLat b - minLat b) / 4 * (4 - real ri)"
    by (simp_all add: field_simps)
  with lat lon show ?thesis
    by (simp add: inside_def decode_step_def Let_def)
qed

lemma decode_step_proper:
  assumes "proper b"
  shows "proper (decode_step b ri ci)"
  using assms by (simp add: proper_def decode_step_def Let_def field_simps)

subsection \<open>The loop of the encoder\<close>

lemma level_le_prec:
  assumes "1 \<le> level"
  shows "real level \<le> p \<longleftrightarrow> level \<le> nat \<lfloor>p\<rfloor>"
proof -
  have "real level \<le> p \<longleftrightarrow> int level \<le> \<lfloor>p\<rfloor>"
    by (simp add: le_floor_iff)
  also have "\<dots> \<longleftrightarrow> level \<le> nat \<lfloor>p\<rfloor>"
    using assms by linarith
  finally show ?thesis .
qed

lemma encode_loop_Num:
  assumes "proper b" "inside b x y" "p \<le> 10" "1 \<le> level"
  shows "\<exists>code b'. encode_loop (Num x) (Num y) (Num p) level (num_box b, s)
             = Inr (num_box b', s @ emit (Num p) level code)
           \<and> length code = Suc (nat \<lfloor>p\<rfloor>) - level
           \<and> set code \<subseteq> set DIGIPIN_CHARS
           \<and> decode_loop (units code) i b = Inr b'
           \<and> proper b' \<and> inside b' x y"
  using assms
proof (induction "Suc (nat \<lfloor>p\<rfloor>) - level" arbitrary: level b s i)
  case 0
  then have "\<not> real level \<le> p"
    using level_le_prec[of level p] by simp
  then have "encode_loop (Num x) (Num y) (Num p) level (num_box b, s) = Inr (num_box b, s)"
    by (subst encode_loop.simps) simp
  with 0 show ?case
    by (intro exI[of _ "[]"] exI[of _ b]) (simp add: units_Nil)
next
  case (Suc n)
  define ri where "ri = clamp03 (3 - \<lfloor>(x - minLat b) / ((maxLat b - minLat b) / 4)\<rfloor>)"
  define ci where "ci = clamp03 \<lfloor>(y - minLon b) / ((maxLon b - minLon b) / 4)\<rfloor>"
  define ch where "ch = DIGIPIN_GRID ! ri ! ci"
  define hy where "hy = (if jeq (Num p) (Num 10) \<and> (level = 3 \<or> level = 6) then ''-'' else [])"
  define b1 where "b1 = decode_step b ri ci"
  have ri: "ri < 4" and ci: "ci < 4"
    by (simp_all add: ri_def ci_def clamp03_lt4)
  have le: "real level \<le> p"
    using Suc.hyps(2) Suc.prems(4) level_le_prec[of level p] by simp
  have body: "encode_body (Num x) (Num y) (Num p) level (num_box b, s)
      = Inr (num_box b1, s @ [ch] @ hy)"
    unfolding b1_def ch_def hy_def ri_def ci_def
    by (rule encode_body_Num[OF Suc.prems(1,2)])
  have b1: "proper b1" "inside b1 x y"
    unfolding b1_def ri_def ci_def
    by (rule decode_step_proper[OF Suc.prems(1)], rule decode_step_inside[OF Suc.prems(1,2)])
  have n: "n = Suc (nat \<lfloor>p\<rfloor>) - Suc level"
    using Suc.hyps(2) by simp
  from Suc.hyps(1)[OF n b1 Suc.prems(3), of "s @ [ch] @ hy" "i + 1"]
  obtain code b' where
    loop: "encode_loop (Num x) (Num y) (Num p) (Suc level) (num_box b1, s @ [ch] @ hy)
             = Inr (num_box b', (s @ [ch] @ hy) @ emit (Num p) (Suc level) code)"
    and len: "length code = Suc (nat \<lfloor>p\<rfloor>) - Suc level"
    and chars: "set code \<subseteq> set DIGIPIN_CHARS"
    and dec: "decode_loop (units code) (i + 1) b1 = Inr b'"
    and inv: "proper b'" "inside b' x y"
    by auto
  have step: "encode_loop (Num x) (Num y) (Num p) level (num_box b, s)
      = encode_loop (Num x) (Num y) (Num p) (Suc level) (num_box b1, s @ [ch] @ hy)"
    using le Suc.prems(3)
    by (subst encode_loop.simps) (simp add: body)
  have "encode_loop (Num x) (Num y) (Num p) level (num_box b, s)
      = Inr (num_box b', s @ emit (Num p) level (ch # code))"
    unfolding step loop by (simp add: hy_def)
  moreover have "length (ch # code) = Suc (nat \<lfloor>p\<rfloor>) - level"
    using len Suc.hyps(2) by simp
  moreover have "set (ch # code) \<subseteq> set DIGIPIN_CHARS"
    using chars grid_in_chars[OF ri ci] by (simp add: ch_def)
  moreover have "decode_loop (units (ch # code)) i b = Inr b'"
    using dec grid_position[OF ri ci] by (simp add: decode_loop_units_Cons ch_def b1_def)
  ultimately show ?case
    using inv by blast
qed

lemma sanitize_emit:
  assumes "set code \<subseteq> set DIGIPIN_CHARS"
  shows "sanitize (emit prec level code) = code"
  using assms
proof (induction code arbitrary: level)
  case Nil
  then show ?case by (simp add: sanitize_def strip_hyphens_def)
next
  case (Cons c cs)
  then have "c \<noteq> CHR ''-''" "ascii_upper c = c"
    using grid_char_plain[of c] by simp_all
  moreover have "sanitize (emit prec (Suc level) cs) = cs"
    using Cons by simp
  ultimately show ?case
    by (simp add: sanitize_def strip_hyphens_def)
qed

lemma strip_emit:
  assumes "set code \<subseteq> set DIGIPIN_CHARS"
  shows "strip_hyphens (emit prec level code) = code"
  using assms
proof (induction code arbitrary: level)
  case Nil
  then show ?case by (simp add: strip_hyphens_def)
next
  case (Cons c cs)
  then have "c \<noteq> CHR ''-''"
    using grid_char_plain[of c] by simp
  moreover have "strip_hyphens (emit prec (Suc level) cs) = cs"
    using Cons by simp
  ultimately show ?case
    by (simp add: strip_hyphens_def)
qed

lemma emit_ungrouped:
  assumes "\<not> jeq prec (Num 10)"
  shows "emit prec level code = code"
  using assms by (induction code arbitrary: level) simp_all

lemma BOUNDS_proper: "proper BOUNDS"
  by (simp add: proper_def BOUNDS_def)

lemma encode_in_range:
  assumes "inside BOUNDS x y" "1 \<le> p" "p \<le> 10"
  shows "\<exists>code b'. encode (JNumber (Num x)) (JNumber (Num y)) (Num p) = Inr (emit (Num p) 1 code)
           \<and> length code = nat \<lfloor>p\<rfloor>
           \<and> set code \<subseteq> set DIGIPIN_CHARS
           \<and> decode_loop (units code) 0 BOUNDS = Inr b'
           \<and> proper b' \<and> inside b' x y"
proof -
  from encode_loop_Num[OF BOUNDS_proper assms(1) assms(3), of 1 "''''" 0]
  obtain code b' where
    loop: "encode_loop (Num x) (Num y) (Num p) 1 (num_box BOUNDS, '''')
             = Inr (num_box b', emit (Num p) 1 code)"
    and rest: "length code = nat \<lfloor>p\<rfloor>" "set code \<subseteq> set DIGIPIN_CHARS"
      "decode_loop (units code) 0 BOUNDS = Inr b'" "proper b'" "inside b' x y"
    by auto
  have "encode (JNumber (Num x)) (JNumber (Num y)) (Num p) = Inr (emit (Num p) 1 code)"
    using assms loop by (simp add: encode_def inside_def jgt_def num_box_def)
  with rest show ?thesis by blast
qed

lemma decode_JString:
  assumes "set (sanitize s) \<subseteq> set DIGIPIN_CHARS"
    and "decode_loop (units (sanitize s)) 0 BOUNDS = Inr b"
    and "1 \<le> length (sanitize s)" "length (sanitize s) \<le> 10"
  shows "\<exists>d. decode (JString s) = Inr d
           \<and> precision d = length (sanitize s)
           \<and> latitude d = (minLat b + maxLat b) / 2
           \<and> longitude d = (minLon b + maxLon b) / 2
           \<and> bounds d = \<lparr>north = maxLat b, south = minLat b, east = maxLon b, west = minLon b\<rparr>
           \<and> approximateMeters (accuracy d) =
                max ((maxLat b - minLat b) * 111000)
                    ((maxLon b - minLon b) * 111000 * cos ((minLat b + maxLat b) / 2 * pi / 180))"
  using assms(2-4) by (auto simp: decode_def toUpperCase_sanitize[OF assms(1)] Let_def)

lemma emit_grouped:
  assumes "length syms = 10"
  shows "emit (Num 10) 1 syms
           = take 3 syms @ ''-'' @ take 3 (drop 3 syms) @ ''-'' @ drop 6 syms"
proof -
  from assms obtain a b c d e f g h i j where "syms = [a, b, c, d, e, f, g, h, i, j]"
    by (auto simp: eval_nat_numeral length_Suc_conv)
  then show ?thesis
    by (simp add: eval_nat_numeral)
qed

section \<open>Separators\<close>

lemma length_DIGIPIN_CHARS: "length (concat DIGIPIN_GRID) = 16"
  by (simp add: DIGIPIN_GRID_def)

lemma strip_hyphens_idem: "CHR ''-'' \<notin> set s \<Longrightarrow> strip_hyphens s = s"
  by (auto simp: strip_hyphens_def filter_id_conv)

lemma strip_hyphens_append: "strip_hyphens (xs @ ys) = strip_hyphens xs @ strip_hyphens ys"
  by (simp add: strip_hyphens_def)

lemma strip_hyphens_strip [simp]: "strip_hyphens (strip_hyphens s) = strip_hyphens s"
  by (simp add: strip_hyphens_def)

lemma take_drop_3_3_4: "take 3 s @ take 3 (drop 3 s) @ drop 6 s = s"
proof -
  have "drop 6 s = drop 3 (drop 3 s)" by simp
  then have "take 3 (drop 3 s) @ drop 6 s = drop 3 s"
    by (simp only: append_take_drop_id)
  then show ?thesis
    by (simp only: append_take_drop_id)
qed

lemma strip_hyphens_grouped:
  "strip_hyphens (group_334 s) = strip_hyphens s"
proof -
  have "strip_hyphens (take 3 s @ ''-'' @ take 3 (drop 3 s) @ ''-'' @ drop 6 s)
      = strip_hyphens (take 3 s @ take 3 (drop 3 s) @ drop 6 s)"
    by (simp add: strip_hyphens_def)
  then show ?thesis
    by (simp only: group_334_def take_drop_3_3_4)
qed

section \<open>The loop of the decoder\<close>

lemma decode_loop_append:
  "decode_loop (xs @ ys) i b =
     (case decode_loop xs i b of Inl e \<Rightarrow> Inl e | Inr b' \<Rightarrow> decode_loop ys (i + length xs) b')"
proof (induction xs arbitrary: i b)
  case Nil
  then show ?case by simp
next
  case (Cons c cs)
  show ?case
  proof (cases "position_of c")
    case None
    then show ?thesis by simp
  next
    case (Some rc)
    then show ?thesis
      using Cons[of "i + 1"] by (cases rc) (simp cong: sum.case_cong)
  qed
qed

lemma decode_loop_alphabet:
  assumes "set pin \<subseteq> set (units DIGIPIN_CHARS)"
  shows "\<exists>b'. decode_loop pin i b = Inr b'"
  using assms
proof (induction pin arbitrary: i b)
  case Nil
  then show ?case by simp
next
  case (Cons c cs)
  then have "position_of c \<noteq> None"
    by (simp add: position_of_None)
  then obtain ri ci where "position_of c = Some (ri, ci)"
    by auto
  with Cons show ?case by simp
qed

lemma decode_loop_chars:
  assumes "set pin \<subseteq> set DIGIPIN_CHARS"
  shows "\<exists>b'. decode_loop (units pin) i b = Inr b'"
proof -
  have "set (units pin) \<subseteq> set (units DIGIPIN_CHARS)"
    using assms by (auto simp: units_def)
  then show ?thesis by (rule decode_loop_alphabet)
qed

lemma decode_loop_first_bad:
  assumes "set good \<subseteq> set (units DIGIPIN_CHARS)" "c \<notin> set (units DIGIPIN_CHARS)"
  shows "decode_loop (good @ c # rest) i b = Inl (CharacterError c (i + length good + 1))"
proof -
  obtain b' where "decode_loop good i b = Inr b'"
    using decode_loop_alphabet[OF assms(1)] by blast
  moreover have "position_of c = None"
    using assms(2) by (simp add: position_of_None)
  ultimately show ?thesis
    by (simp add: decode_loop_append)
qed

lemma first_bad_symbol:
  assumes "\<not> set pin \<subseteq> set (units DIGIPIN_CHARS)"
  shows "\<exists>i<length pin. pin ! i \<notin> set (units DIGIPIN_CHARS)
           \<and> (\<forall>j<i. pin ! j \<in> set (units DIGIPIN_CHARS))
           \<and> decode_loop pin 0 b = Inl (CharacterError (pin ! i) (i + 1))"
proof -
  from assms have "\<exists>x\<in>set pin. x \<notin> set (units DIGIPIN_CHARS)"
    by blast
  then obtain good c rest where pin: "pin = good @ c # rest"
    and c: "c \<notin> set (units DIGIPIN_CHARS)"
    and good: "\<forall>y\<in>set good. \<not> y \<notin> set (units DIGIPIN_CHARS)"
    using split_list_first_prop[of pin "\<lambda>x. x \<notin> set (units DIGIPIN_CHARS)"] by blast
  have g: "set good \<subseteq> set (units DIGIPIN_CHARS)"
    using good by blast
  have "decode_loop pin 0 b = Inl (CharacterError c (length good + 1))"
    unfolding pin using decode_loop_first_bad[OF g c, of rest 0 b] by simp
  moreover have "pin ! length good = c" "length good < length pin"
    by (simp_all add: pin)
  moreover have "\<forall>j<length good. pin ! j \<in> set (units DIGIPIN_CHARS)"
    using g by (auto simp: pin nth_append)
  ultimately show ?thesis
    using c by (intro exI[of _ "length good"]) simp
qed

lemma alphabet_units:
  "units DIGIPIN_CHARS = [70, 67, 57, 56, 74, 51, 50, 55, 75, 52, 53, 54, 76, 77, 80, 84]"
  by (simp add: units_def DIGIPIN_CHARS_def DIGIPIN_GRID_def)

lemma pin_examples:
  "toUpperCase (strip_hyphens ''39j-438'') = [51, 57, 74, 52, 51, 56]"
  "toUpperCase (strip_hyphens ''--'') = []"
  "toUpperCase (strip_hyphens ''39j-43x'') = [51, 57, 74, 52, 51, 88]"
  "toUpperCase (strip_hyphens
      [CHR ''F'', CHR ''F'', CHR ''F'', CHR ''F'', CHR ''F'', CHR ''F'', CHR ''F'', CHR ''F'',
       CHR ''F'', CHR 0xDF])
     = [70, 70, 70, 70, 70, 70, 70, 70, 70, 83, 83]"
  "toUpperCase (strip_hyphens [CHR 0xDF]) = [83, 83]"
  "toUpperCase (strip_hyphens [CHR ''F'', CHR 0xE9]) = [70, 201]"
  by (simp_all add: toUpperCase_def toUpperCase_unit_def strip_hyphens_def)

section \<open>Cells of the regular grid\<close>

lemma aligned_BOUNDS: "aligned 0 BOUNDS"
  unfolding aligned_def by (intro exI[of _ 0]) (simp add: BOUNDS_def)

lemma aligned_step:
  assumes "aligned k b" "ri < 4" "ci < 4"
  shows "aligned (Suc k) (decode_step b ri ci)"
proof -
  from assms(1) obtain i j where ij: "i < 4 ^ k" "j < 4 ^ k"
    and b: "minLat b = minLat BOUNDS + real i * (36 / 4 ^ k)"
      "maxLat b = minLat BOUNDS + (real i + 1) * (36 / 4 ^ k)"
      "minLon b = minLon BOUNDS + real j * (36 / 4 ^ k)"
      "maxLon b = minLon BOUNDS + (real j + 1) * (36 / 4 ^ k)"
    unfolding aligned_def by blast
  define i' where "i' = 4 * i + (3 - ri)"
  define j' where "j' = 4 * j + ci"
  have i': "i' < 4 ^ Suc k" and j': "j' < 4 ^ Suc k"
    using ij assms(2,3) by (simp_all add: i'_def j'_def)
  have ri: "real i' = 4 * real i + 3 - real ri"
    using assms(2) by (simp add: i'_def)
  have rj: "real j' = 4 * real j + real ci"
    by (simp add: j'_def)
  have "minLat (decode_step b ri ci) = minLat BOUNDS + real i' * (36 / 4 ^ Suc k)"
    "maxLat (decode_step b ri ci) = minLat BOUNDS + (real i' + 1) * (36 / 4 ^ Suc k)"
    "minLon (decode_step b ri ci) = minLon BOUNDS + real j' * (36 / 4 ^ Suc k)"
    "maxLon (decode_step b ri ci) = minLon BOUNDS + (real j' + 1) * (36 / 4 ^ Suc k)"
    unfolding ri rj by (simp_all add: decode_step_def Let_def b field_simps)
  with i' j' show ?thesis
    unfolding aligned_def by blast
qed

lemma decode_loop_aligned:
  assumes "decode_loop pin i b = Inr b'" "aligned k b"
  shows "aligned (k + length pin) b'"
  using assms
proof (induction pin arbitrary: i b k)
  case Nil
  then show ?case by simp
next
  case (Cons c cs)
  from Cons.prems(1) obtain ri ci where pos: "position_of c = Some (ri, ci)"
    and rest: "decode_loop cs (i + 1) (decode_step b ri ci) = Inr b'"
    by (auto split: option.splits)
  have "ri < 4" "ci < 4"
    using position_of_Some[OF pos] by simp_all
  then have "aligned (Suc k) (decode_step b ri ci)"
    using Cons.prems(2) by (intro aligned_step)
  from Cons.IH[OF rest this] show ?case by simp
qed

lemma aligned_extent:
  assumes "aligned k b"
  shows "maxLat b - minLat b = 36 / 4 ^ k" "maxLon b - minLon b = 36 / 4 ^ k"
  using assms unfolding aligned_def by (auto simp: field_simps)

lemma aligned_proper:
  assumes "aligned k b"
  shows "proper b"
proof -
  have "0 < (36::real) / 4 ^ k" by simp
  with aligned_extent[OF assms] have "0 < maxLat b - minLat b" "0 < maxLon b - minLon b"
    by simp_all
  then show ?thesis by (simp add: proper_def)
qed

lemma decode_step_nested:
  assumes "proper b" "ri < 4" "ci < 4"
  defines "b' \<equiv> decode_step b ri ci"
  shows "minLat b \<le> minLat b'" "maxLat b' \<le> maxLat b"
    "minLon b \<le> minLon b'" "maxLon b' \<le> maxLon b"
    "minLat b < minLat b' \<or> maxLat b' < maxLat b"
    "minLon b < minLon b' \<or> maxLon b' < maxLon b"
proof -
  define latDiv where "latDiv = (maxLat b - minLat b) / 4"
  define lonDiv where "lonDiv = (maxLon b - minLon b) / 4"
  have d: "0 < latDiv" "0 < lonDiv"
    using assms(1) by (simp_all add: latDiv_def lonDiv_def proper_def)
  have e: "maxLat b = minLat b + 4 * latDiv" "maxLon b = minLon b + 4 * lonDiv"
    unfolding latDiv_def lonDiv_def by argo+
  have r: "real ri \<le> 3" "real ci \<le> 3" "0 \<le> real ri" "0 \<le> real ci"
    using assms(2,3) by simp_all
  have s: "minLat b' = maxLat b - latDiv * (real ri + 1)" "maxLat b' = maxLat b - latDiv * real ri"
    "minLon b' = minLon b + lonDiv * real ci" "maxLon b' = minLon b + lonDiv * (real ci + 1)"
    by (simp_all add: b'_def decode_step_def Let_def latDiv_def lonDiv_def)
  have m: "latDiv * real ri \<le> latDiv * 3" "0 \<le> latDiv * real ri"
    "lonDiv * real ci \<le> lonDiv * 3" "0 \<le> lonDiv * real ci"
    using d r by simp_all
  show "minLat b \<le> minLat b'" "maxLat b' \<le> maxLat b"
    "minLon b \<le> minLon b'" "maxLon b' \<le> maxLon b"
    unfolding s e using m d by (simp_all add: algebra_simps)
  have "maxLat b' - minLat b' = latDiv" "maxLon b' - minLon b' = lonDiv"
    unfolding s by (simp_all add: algebra_simps)
  moreover have "latDiv < maxLat b - minLat b" "lonDiv < maxLon b - minLon b"
    using d unfolding e by simp_all
  ultimately show "minLat b < minLat b' \<or> maxLat b' < maxLat b"
    "minLon b < minLon b' \<or> maxLon b' < maxLon b"
    by linarith+
qed

lemma decode_valid:
  assumes "set (sanitize s) \<subseteq> set DIGIPIN_CHARS"
    and "1 \<le> length (sanitize s)" "length (sanitize s) \<le> 10"
  shows "\<exists>b d. decode_loop (units (sanitize s)) 0 BOUNDS = Inr b
           \<and> aligned (length (sanitize s)) b
           \<and> decode (JString s) = Inr d
           \<and> precision d = length (sanitize s)
           \<and> latitude d = (minLat b + maxLat b) / 2
           \<and> longitude d = (minLon b + maxLon b) / 2
           \<and> bounds d = \<lparr>north = maxLat b, south = minLat b, east = maxLon b, west = minLon b\<rparr>
           \<and> approximateMeters (accuracy d) = 3996000 / 4 ^ length (sanitize s)"
proof -
  obtain b where b: "decode_loop (units (sanitize s)) 0 BOUNDS = Inr b"
    using decode_loop_chars[OF assms(1)] by blast
  have al: "aligned (length (sanitize s)) b"
    using decode_loop_aligned[OF b aligned_BOUNDS] by simp
  from decode_JString[OF assms(1) b assms(2,3)] obtain d where d: "decode (JString s) = Inr d"
    "precision d = length (sanitize s)"
    "latitude d = (minLat b + maxLat b) / 2"
    "longitude d = (minLon b + maxLon b) / 2"
    "bounds d = \<lparr>north = maxLat b, south = minLat b, east = maxLon b, west = minLon b\<rparr>"
    "approximateMeters (accuracy d) =
       max ((maxLat b - minLat b) * 111000)
           ((maxLon b - minLon b) * 111000 * cos ((minLat b + maxLat b) / 2 * pi / 180))"
    by blast
  define e :: real where "e = 36 / 4 ^ length (sanitize s)"
  have e: "0 < e" by (simp add: e_def)
  have ext: "maxLat b - minLat b = e" "maxLon b - minLon b = e"
    using aligned_extent[OF al] by (simp_all add: e_def)
  have "e * 111000 * cos ((minLat b + maxLat b) / 2 * pi / 180) \<le> e * 111000 * 1"
    using e by (intro mult_left_mono cos_le_one) simp
  then have "approximateMeters (accuracy d) = e * 111000"
    unfolding d(6) ext by (simp add: max_def)
  then have "approximateMeters (accuracy d) = 3996000 / 4 ^ length (sanitize s)"
    by (simp add: e_def)
  with b al d(1-5) show ?thesis by blast
qed

lemma sanitize_length: "length (sanitize s) = length (strip_hyphens s)"
  by (simp add: sanitize_def)

lemma sanitize_butlast: "sanitize (butlast (strip_hyphens s)) = butlast (sanitize s)"
proof -
  have "strip_hyphens (butlast (strip_hyphens s)) = butlast (strip_hyphens s)"
    by (intro strip_hyphens_idem) (auto simp: strip_hyphens_def dest: in_set_butlastD)
  then show ?thesis
    by (simp add: sanitize_def map_butlast)
qed

section \<open>Accuracy\<close>

lemma GRID_SIZES_tolerance:
  "list_all (\<lambda>(level, width, distance). \<bar>3996000 / 4 ^ level - distance\<bar> \<le> 3 / 100 * distance)
     GRID_SIZES"
  by (simp add: GRID_SIZES_def)

lemma encode_decode_accuracy:
  fixes lat lon :: real and p :: nat
  assumes "inside BOUNDS lat lon" "1 \<le> p" "p \<le> 10"
  shows "\<exists>code d. encode (JNumber (Num lat)) (JNumber (Num lon)) (Num (real p)) = Inr code
           \<and> decode (JString code) = Inr d
           \<and> precision d = p
           \<and> approximateMeters (accuracy d) = 3996000 / 4 ^ p"
proof -
  from encode_in_range[OF assms(1), of "real p"] assms(2,3)
  obtain code where
    enc: "encode (JNumber (Num lat)) (JNumber (Num lon)) (Num (real p)) = Inr (emit (Num (real p)) 1 code)"
    and len: "length code = p" and chars: "set code \<subseteq> set DIGIPIN_CHARS"
    by auto
  have san: "sanitize (emit (Num (real p)) 1 code) = code"
    by (rule sanitize_emit[OF chars])
  from decode_valid[of "emit (Num (real p)) 1 code"] san chars len assms(2,3)
  obtain d where "decode (JString (emit (Num (real p)) 1 code)) = Inr d"
    "precision d = p" "approximateMeters (accuracy d) = 3996000 / 4 ^ p"
    by auto
  with enc show ?thesis by blast
qed

section \<open>Neighbours\<close>

lemma aligned_interior:
  fixes lo hi :: real and i k :: nat
  assumes "hi = lo + (real i + 1) * (36 / 4 ^ k)" "i < 4 ^ k"
    and "m0 < m0 + real i * (36 / 4 ^ k)" "m0 + (real i + 1) * (36 / 4 ^ k) < m0 + 36"
  defines "s \<equiv> (36::real) / 4 ^ k"
  shows "real i \<ge> 1" "(real i + 2) * s \<le> 36"
proof -
  have s: "0 < s" by (simp add: s_def)
  have full: "4 ^ k * s = 36" by (simp add: s_def)
  from assms(3) have "0 < real i * s" by (simp add: s_def)
  then have "0 < real i" using s by (simp add: zero_less_mult_iff)
  then show "real i \<ge> 1" by simp
  from assms(4) have "(real i + 1) * s < 4 ^ k * s"
    unfolding full by (simp add: s_def)
  then have "real i + 1 < 4 ^ k" using s by simp
  then have "real (i + 1) < real ((4::nat) ^ k)" by simp
  then have "i + 1 < 4 ^ k" by (simp only: of_nat_less_iff)
  then have "i + 2 \<le> 4 ^ k" by simp
  then have "real (i + 2) \<le> real ((4::nat) ^ k)" by (simp only: of_nat_le_iff)
  then have "real i + 2 \<le> 4 ^ k" by simp
  then have "(real i + 2) * s \<le> 4 ^ k * s" using s by simp
  then show "(real i + 2) * s \<le> 36" unfolding full .
qed

lemma aligned_offsets_inside:
  assumes al: "aligned k b"
    and int: "minLat BOUNDS < minLat b" "maxLat b < maxLat BOUNDS"
      "minLon BOUNDS < minLon b" "maxLon b < maxLon BOUNDS"
  defines "cLat \<equiv> (minLat b + maxLat b) / 2" and "cLon \<equiv> (minLon b + maxLon b) / 2"
  defines "latStep \<equiv> maxLat b - minLat b" and "lonStep \<equiv> maxLon b - minLon b"
  shows "minLat BOUNDS \<le> cLat - latStep" "cLat + latStep \<le> maxLat BOUNDS"
    "minLon BOUNDS \<le> cLon - lonStep" "cLon + lonStep \<le> maxLon BOUNDS"
    "0 < latStep" "0 < lonStep"
proof -
  from al obtain i j where ij: "i < 4 ^ k" "j < 4 ^ k"
    and b: "minLat b = minLat BOUNDS + real i * (36 / 4 ^ k)"
      "maxLat b = minLat BOUNDS + (real i + 1) * (36 / 4 ^ k)"
      "minLon b = minLon BOUNDS + real j * (36 / 4 ^ k)"
      "maxLon b = minLon BOUNDS + (real j + 1) * (36 / 4 ^ k)"
    unfolding aligned_def by blast
  define s :: real where "s = 36 / 4 ^ k"
  have s: "0 < s" by (simp add: s_def)
  have top: "maxLat BOUNDS = minLat BOUNDS + 36" "maxLon BOUNDS = minLon BOUNDS + 36"
    by (simp_all add: BOUNDS_def)
  have i: "real i \<ge> 1" "(real i + 2) * s \<le> 36"
    using aligned_interior[OF b(2) ij(1), of "minLat BOUNDS"] int(1,2)
    unfolding b top s_def by simp_all
  have j: "real j \<ge> 1" "(real j + 2) * s \<le> 36"
    using aligned_interior[OF b(4) ij(2), of "minLon BOUNDS"] int(3,4)
    unfolding b top s_def by simp_all
  have steps: "latStep = s" "lonStep = s"
    unfolding latStep_def lonStep_def b s_def by (simp_all add: field_simps)
  have cs: "cLat = minLat BOUNDS + (real i + 1 / 2) * s" "cLon = minLon BOUNDS + (real j + 1 / 2) * s"
    unfolding cLat_def cLon_def b s_def by (simp_all add: field_simps)
  have i1: "s \<le> real i * s" and j1: "s \<le> real j * s"
    using i(1) j(1) s by simp_all
  show "0 < latStep" "0 < lonStep" using s steps by simp_all
  show "minLat BOUNDS \<le> cLat - latStep" "minLon BOUNDS \<le> cLon - lonStep"
    unfolding cs steps using i1 j1 s by (simp_all add: algebra_simps)
  show "cLat + latStep \<le> maxLat BOUNDS" "cLon + lonStep \<le> maxLon BOUNDS"
    unfolding cs steps top using i(2) j(2) s by (simp_all add: algebra_simps)
qed

lemma neighbor_visit_cases:
  assumes "1 \<le> prec" "prec \<le> 10"
  shows "if inside BOUNDS (cLat + fst dir) (cLon + snd dir)
         then \<exists>pin. neighbor_visit cLat cLon prec dir acc = acc @ [pin]
         else neighbor_visit cLat cLon prec dir acc = acc"
proof (cases "inside BOUNDS (cLat + fst dir) (cLon + snd dir)")
  case True
  from encode_in_range[OF True, of "real prec"] assms
  obtain pin where "encode (JNumber (Num (cLat + fst dir))) (JNumber (Num (cLon + snd dir)))
      (Num (real prec)) = Inr pin"
    by auto
  with True show ?thesis
    by (auto simp: neighbor_visit_def inside_def Let_def)
next
  case False
  then show ?thesis
    by (auto simp: neighbor_visit_def inside_def Let_def)
qed

lemma fold_neighbor_visit_length:
  assumes "1 \<le> prec" "prec \<le> 10"
  shows "length (fold (neighbor_visit cLat cLon prec) dirs acc)
       = length acc + length (filter (\<lambda>dir. inside BOUNDS (cLat + fst dir) (cLon + snd dir)) dirs)"
proof (induction dirs arbitrary: acc)
  case Nil
  then show ?case by simp
next
  case (Cons dir dirs)
  show ?case
    using neighbor_visit_cases[OF assms, of cLat dir cLon acc] Cons[of "neighbor_visit cLat cLon prec dir acc"]
    by (auto split: if_splits)
qed

lemma decode_bounds:
  assumes "decode (JString s) = Inr d"
  shows "decode_loop (toUpperCase (strip_hyphens s)) 0 BOUNDS
           = Inr \<lparr>minLat = south (bounds d), maxLat = north (bounds d),
                  minLon = west (bounds d), maxLon = east (bounds d)\<rparr>
         \<and> latitude d = (south (bounds d) + north (bounds d)) / 2
         \<and> longitude d = (west (bounds d) + east (bounds d)) / 2"
  using assms
  by (auto simp: decode_def Let_def split: if_splits sum.splits)

section \<open>Evaluation on concrete inputs\<close>

lemma cellSize_loop_closed: "cellSize_loop (real p) i c = c / 4 ^ (p - i)"
proof (induction "p - i" arbitrary: i c)
  case 0
  then show ?case by (subst cellSize_loop.simps) simp
next
  case (Suc n)
  then have "i < p" "n = p - Suc i" by simp_all
  moreover have "p - i = Suc (p - Suc i)" using \<open>i < p\<close> by simp
  ultimately show ?case
    using Suc.hyps(1)[of "Suc i" "c / 4"]
    by (subst cellSize_loop.simps) simp
qed

lemmas encode_eval_simps =
  encode_def BOUNDS_def encode_loop.simps encode_body_def jmin_def jmax_def
  js_index_def DIGIPIN_GRID_def Let_def jsub_def jle_def jgt_def jeq_def

lemmas generateGrid_eval_simps =
  generateGrid_def cellSize_loop.simps lat_loop.simps lon_loop.simps grid_visit_def set_add_def

section \<open>The claims\<close>

text \<open>
  Claim C1 (round-trip containment). For every latitude and longitude inside the root
  rectangle and every precision from 1 to 10, \<open>encode\<close> returns a code, \<open>decode\<close>
  accepts that code, and the bounds it returns contain the point. The theorem covers the
  whole closed rectangle, the quadrant boundaries and the root edges included: a point on
  a boundary lies on the edge of the cell \<open>encode\<close> assigns it to.
\<close>

theorem round_trip_containment:
  fixes lat lon :: real and p :: nat
  assumes "minLat BOUNDS \<le> lat" "lat \<le> maxLat BOUNDS"
    and "minLon BOUNDS \<le> lon" "lon \<le> maxLon BOUNDS"
    and "1 \<le> p" "p \<le> 10"
  shows "\<exists>code d. encode (JNumber (Num lat)) (JNumber (Num lon)) (Num (real p)) = Inr code
           \<and> decode (JString code) = Inr d
           \<and> precision d = p
           \<and> south (bounds d) \<le> lat \<and> lat \<le> north (bounds d)
           \<and> west (bounds d) \<le> lon \<and> lon \<le> east (bounds d)"
proof -
  have "inside BOUNDS lat lon"
    using assms by (simp add: inside_def)
  from encode_in_range[OF this, of "real p"] assms(5,6)
  obtain code b' where
    enc: "encode (JNumber (Num lat)) (JNumber (Num lon)) (Num (real p)) = Inr (emit (Num (real p)) 1 code)"
    and len: "length code = p" and chars: "set code \<subseteq> set DIGIPIN_CHARS"
    and dec: "decode_loop (units code) 0 BOUNDS = Inr b'" and ins: "inside b' lat lon"
    by auto
  have san: "sanitize (emit (Num (real p)) 1 code) = code"
    by (rule sanitize_emit[OF chars])
  from decode_JString[of "emit (Num (real p)) 1 code" b'] san chars dec len assms(5,6)
  obtain d where "decode (JString (emit (Num (real p)) 1 code)) = Inr d"
    "precision d = p"
    "bounds d = \<lparr>north = maxLat b', south = minLat b', east = maxLon b', west = minLon b'\<rparr>"
    by auto
  with enc ins show ?thesis
    by (auto simp: inside_def)
qed

theorem round_trip_containment_witness:
  "\<exists>code d. encode (JNumber (Num 28.6139)) (JNumber (Num 77.2090)) (Num 10) = Inr code
           \<and> decode (JString code) = Inr d
           \<and> precision d = 10
           \<and> south (bounds d) \<le> 28.6139 \<and> 28.6139 \<le> north (bounds d)
           \<and> west (bounds d) \<le> 77.2090 \<and> 77.2090 \<le> east (bounds d)"
  using round_trip_containment[of "28.6139" "77.2090" 10]
  by (simp add: BOUNDS_def)

text \<open>
  Claim C2 (children and parent). For a separator-free code \<open>C\<close> of length 1 to 9,
  \<open>getChildren\<close> returns 16 codes: \<open>C\<close> followed by each symbol of the alphabet, in
  the row-major order of the grid. A child of ten symbols is returned in the grouped form
  \<open>AAA-BBB-CCCC\<close>, so the equality with \<open>C\<close> plus one symbol is stated after separator
  stripping, and literally for the shorter ones. \<open>getParent\<close> of every child is \<open>C\<close>.
\<close>

theorem children_parent_inverse:
  assumes "CHR ''-'' \<notin> set C" "1 \<le> length C" "length C \<le> 9"
  shows "\<exists>ks. getChildren C = Inr ks
           \<and> length ks = 16
           \<and> map strip_hyphens ks = map (\<lambda>sym. C @ [sym]) DIGIPIN_CHARS
           \<and> ks = map (\<lambda>sym. if length C = 9 then group_334 (C @ [sym]) else C @ [sym]) DIGIPIN_CHARS
           \<and> list_all (\<lambda>K. getParent K = Inr C) ks"
proof -
  have clean: "strip_hyphens C = C"
    using assms(1) by (rule strip_hyphens_idem)
  define ks where
    "ks = map (\<lambda>sym. if length C = 9 then group_334 (C @ [sym]) else C @ [sym]) DIGIPIN_CHARS"
  have get: "getChildren C = Inr ks"
    using assms(3) by (simp add: getChildren_def clean ks_def Let_def group_334_def DIGIPIN_CHARS_def)
  have len: "length ks = 16"
    by (simp add: ks_def DIGIPIN_CHARS_def length_DIGIPIN_CHARS)
  have sym: "CHR ''-'' \<notin> set (C @ [sym])" if "sym \<in> set DIGIPIN_CHARS" for sym
    using that assms(1) grid_char_plain[of sym] by auto
  have strip: "strip_hyphens (if length C = 9 then group_334 (C @ [sym]) else C @ [sym]) = C @ [sym]"
    if "sym \<in> set DIGIPIN_CHARS" for sym
    using strip_hyphens_idem[OF sym[OF that]]
    by (simp add: strip_hyphens_grouped)
  have stripped: "map strip_hyphens ks = map (\<lambda>sym. C @ [sym]) DIGIPIN_CHARS"
    unfolding ks_def using strip by simp
  have parent: "getParent K = Inr C" if "K \<in> set ks" for K
  proof -
    from that have "K \<in> (\<lambda>sym. if length C = 9 then group_334 (C @ [sym]) else C @ [sym])
        ` set DIGIPIN_CHARS"
      by (simp only: ks_def set_map)
    then obtain sym where s: "sym \<in> set DIGIPIN_CHARS"
      and K: "K = (if length C = 9 then group_334 (C @ [sym]) else C @ [sym])"
      by blast
    have "strip_hyphens K = C @ [sym]"
      unfolding K by (rule strip[OF s])
    then show ?thesis
      using assms(2) by (auto simp: getParent_def)
  qed
  then have "list_all (\<lambda>K. getParent K = Inr C) ks"
    by (simp add: list_all_iff)
  with get len stripped show ?thesis
    unfolding ks_def by blast
qed

theorem children_parent_inverse_witness:
  "(\<exists>ks. getChildren ''39J'' = Inr ks
       \<and> length ks = 16
       \<and> ks = map (\<lambda>sym. ''39J'' @ [sym]) DIGIPIN_CHARS
       \<and> list_all (\<lambda>K. getParent K = Inr ''39J'') ks)
   \<and> (\<exists>ks. getChildren ''39J438TJC'' = Inr ks
       \<and> length ks = 16
       \<and> map strip_hyphens ks = map (\<lambda>sym. ''39J438TJC'' @ [sym]) DIGIPIN_CHARS
       \<and> hd ks = ''39J-438-TJCF''
       \<and> list_all (\<lambda>K. getParent K = Inr ''39J438TJC'') ks)"
proof -
  have a: "\<exists>ks. getChildren ''39J'' = Inr ks
       \<and> length ks = 16
       \<and> ks = map (\<lambda>sym. ''39J'' @ [sym]) DIGIPIN_CHARS
       \<and> list_all (\<lambda>K. getParent K = Inr ''39J'') ks"
    using children_parent_inverse[of "''39J''"] by simp
  have b: "\<exists>ks. getChildren ''39J438TJC'' = Inr ks
       \<and> length ks = 16
       \<and> map strip_hyphens ks = map (\<lambda>sym. ''39J438TJC'' @ [sym]) DIGIPIN_CHARS
       \<and> hd ks = ''39J-438-TJCF''
       \<and> list_all (\<lambda>K. getParent K = Inr ''39J438TJC'') ks"
    using children_parent_inverse[of "''39J438TJC''"]
    by (simp add: group_334_def DIGIPIN_CHARS_def DIGIPIN_GRID_def)
  from a b show ?thesis by blast
qed

text \<open>
  Claim C3 (lattice pitch of generateGrid). The claim gives the pitch as the cell size
  at precision \<open>p\<close>, \<open>36 / 4 ^ p\<close>. The loop that computes \<open>cellSize\<close> starts at
  \<open>i = 1\<close> and so divides 36 by 4 only \<open>p - 1\<close> times: the pitch is \<open>36 / 4 ^ (p - 1)\<close>,
  four cells of precision \<open>p\<close> along each axis. At precision 1 the pitch is 36 while the
  cell of a one-symbol code is 9 degrees wide, and for the whole root rectangle the
  function returns one code out of sixteen; for the rectangle of the test suite at
  precision 6 the pitch is \<open>9 / 256\<close> and sixteen points are sampled.
\<close>

theorem generateGrid_pitch:
  "cellSize_loop (real p) 1 36 = 36 / 4 ^ (p - 1)
   \<and> cellSize_loop 6 1 36 = 4 * (36 / 4 ^ 6)
   \<and> cellSize_loop 1 1 36 = 36
   \<and> (\<exists>d. decode (JString ''F'') = Inr d
         \<and> latDegrees (accuracy d) = 9 \<and> lonDegrees (accuracy d) = 9)
   \<and> generateGrid \<lparr>north = 38.5, south = 2.5, east = 99.5, west = 63.5\<rparr> 1 = Inr [''F'']
   \<and> generateGrid \<lparr>north = 28.7, south = 28.6, east = 77.3, west = 77.2\<rparr> 6 =
       Inr [''39J4K8'', ''39J448'', ''39J458'', ''39J468'', ''39J4J8'', ''39J438'',
            ''39J428'', ''39J478'', ''39J4F8'', ''39J4C8'', ''39J498'', ''39J488'',
            ''39J3L8'', ''39J3M8'', ''39J3P8'', ''39J3T8'']"
proof -
  have a: "cellSize_loop (real p) 1 36 = 36 / 4 ^ (p - 1)"
    by (rule cellSize_loop_closed)
  have b: "cellSize_loop 6 1 36 = 4 * (36 / 4 ^ 6)" "cellSize_loop 1 1 36 = 36"
    using cellSize_loop_closed[of 6 1 36] cellSize_loop_closed[of 1 1 36] by simp_all
  have "toUpperCase (strip_hyphens ''F'') = units ''F''"
    by (simp add: toUpperCase_def toUpperCase_unit_def strip_hyphens_def units_def)
  then have c: "\<exists>d. decode (JString ''F'') = Inr d
         \<and> latDegrees (accuracy d) = 9 \<and> lonDegrees (accuracy d) = 9"
    by (simp add: decode_def decode_loop_units_Cons units_Nil
          CHAR_TO_POSITION_eq decode_step_def BOUNDS_def Let_def)
  have d: "generateGrid \<lparr>north = 38.5, south = 2.5, east = 99.5, west = 63.5\<rparr> 1 = Inr [''F'']"
    by (simp add: generateGrid_eval_simps encode_eval_simps)
  have e: "generateGrid \<lparr>north = 28.7, south = 28.6, east = 77.3, west = 77.2\<rparr> 6 =
       Inr [''39J4K8'', ''39J448'', ''39J458'', ''39J468'', ''39J4J8'', ''39J438'',
            ''39J428'', ''39J478'', ''39J4F8'', ''39J4C8'', ''39J498'', ''39J488'',
            ''39J3L8'', ''39J3M8'', ''39J3P8'', ''39J3T8'']"
    by (simp add: generateGrid_eval_simps encode_eval_simps)
  from a b c d e show ?thesis by blast
qed

text \<open>
  Claim C4 (separator grouping). For a point of the root rectangle and a precision
  \<open>p\<close> from 1 to 10, \<open>encode\<close> emits \<open>p\<close> symbols of the alphabet, none of them the
  separator. The returned code is these symbols with a separator after the third and
  after the sixth exactly when \<open>p = 10\<close> (three, three and four symbols); for every
  \<open>p\<close> from 1 to 9 it is the symbols alone.
\<close>

theorem encode_separator_grouping:
  fixes lat lon :: real and p :: nat
  assumes "minLat BOUNDS \<le> lat" "lat \<le> maxLat BOUNDS"
    and "minLon BOUNDS \<le> lon" "lon \<le> maxLon BOUNDS"
    and "1 \<le> p" "p \<le> 10"
  shows "\<exists>code syms. encode (JNumber (Num lat)) (JNumber (Num lon)) (Num (real p)) = Inr code
           \<and> length syms = p
           \<and> set syms \<subseteq> set DIGIPIN_CHARS
           \<and> CHR ''-'' \<notin> set syms
           \<and> code = (if p = 10
                      then take 3 syms @ ''-'' @ take 3 (drop 3 syms) @ ''-'' @ drop 6 syms
                      else syms)"
proof -
  have "inside BOUNDS lat lon"
    using assms by (simp add: inside_def)
  from encode_in_range[OF this, of "real p"] assms(5,6)
  obtain syms where
    enc: "encode (JNumber (Num lat)) (JNumber (Num lon)) (Num (real p)) = Inr (emit (Num (real p)) 1 syms)"
    and len: "length syms = p" and chars: "set syms \<subseteq> set DIGIPIN_CHARS"
    by auto
  have hy: "CHR ''-'' \<notin> set syms"
    using chars grid_char_plain by blast
  have "emit (Num (real p)) 1 syms
      = (if p = 10 then take 3 syms @ ''-'' @ take 3 (drop 3 syms) @ ''-'' @ drop 6 syms else syms)"
  proof (cases "p = 10")
    case True
    with len emit_grouped[of syms] show ?thesis by simp
  next
    case False
    then show ?thesis by (simp add: emit_ungrouped)
  qed
  with enc len chars hy show ?thesis by blast
qed

theorem encode_separator_grouping_witness:
  "(\<exists>code syms. encode (JNumber (Num 28.6139)) (JNumber (Num 77.2090)) (Num 10) = Inr code
      \<and> length syms = 10 \<and> set syms \<subseteq> set DIGIPIN_CHARS \<and> CHR ''-'' \<notin> set syms
      \<and> code = take 3 syms @ ''-'' @ take 3 (drop 3 syms) @ ''-'' @ drop 6 syms)
   \<and> (\<exists>code syms. encode (JNumber (Num 28.6139)) (JNumber (Num 77.2090)) (Num 6) = Inr code
      \<and> length syms = 6 \<and> set syms \<subseteq> set DIGIPIN_CHARS \<and> CHR ''-'' \<notin> set syms
      \<and> code = syms)"
  using encode_separator_grouping[of "28.6139" "77.2090" 10]
    encode_separator_grouping[of "28.6139" "77.2090" 6]
  by (simp add: BOUNDS_def)

text \<open>
  Claim C5 (encode preconditions). A value that is not a number is rejected with the
  coordinates error, a precision outside 1..10 with the precision error and a finite
  point outside the root rectangle with a bounds error, as the claim says. NaN is a
  number for \<open>typeof\<close> and every comparison with it is false, so it passes all three
  checks: with a NaN longitude \<open>encode\<close> returns a string built from the text
  \<open>undefined\<close>, with a NaN latitude it dies in the runtime's TypeError, and with a NaN
  precision it returns the empty string. An infinite coordinate is reported as a bounds
  error.
\<close>

theorem encode_preconditions_nan:
  "encode (JNumber (Num 28.6139)) (JNumber NaN) (Num 10) =
     Inr ''undefinedundefinedundefined-undefinedundefinedundefined-undefinedundefinedundefinedundefined''
   \<and> encode (JNumber NaN) (JNumber (Num 77.2090)) (Num 10) = Inl TypeError
   \<and> encode (JNumber (Num 28.6139)) (JNumber (Num 77.2090)) NaN = Inr ''''
   \<and> encode (JNumber PosInf) (JNumber (Num 77.2090)) (Num 10) = Inl (LatitudeBoundsError PosInf)
   \<and> encode JOther (JNumber lon) prec = Inl CoordinatesError
   \<and> encode (JNumber lat) (JString s) prec = Inl CoordinatesError
   \<and> encode (JNumber lat) (JNumber lon) (Num 11) = Inl PrecisionError
   \<and> encode (JNumber (Num 91)) (JNumber (Num 77)) (Num 10) = Inl (LatitudeBoundsError (Num 91))"
proof -
  have a: "encode (JNumber (Num 28.6139)) (JNumber NaN) (Num 10) =
     Inr ''undefinedundefinedundefined-undefinedundefinedundefined-undefinedundefinedundefinedundefined''"
    by (simp add: encode_eval_simps)
  have b: "encode (JNumber NaN) (JNumber (Num 77.2090)) (Num 10) = Inl TypeError"
    by (simp add: encode_eval_simps)
  have c: "encode (JNumber (Num 28.6139)) (JNumber (Num 77.2090)) NaN = Inr ''''"
    by (simp add: encode_eval_simps)
  have d: "encode (JNumber PosInf) (JNumber (Num 77.2090)) (Num 10) = Inl (LatitudeBoundsError PosInf)"
    by (simp add: encode_eval_simps)
  have e: "encode JOther (JNumber lon) prec = Inl CoordinatesError"
    "encode (JNumber lat) (JString s) prec = Inl CoordinatesError"
    by (simp_all add: encode_def)
  have f: "encode (JNumber lat) (JNumber lon) (Num 11) = Inl PrecisionError"
    by (simp add: encode_def jgt_def)
  have g: "encode (JNumber (Num 91)) (JNumber (Num 77)) (Num 10) = Inl (LatitudeBoundsError (Num 91))"
    by (simp add: encode_def jgt_def BOUNDS_def)
  from a b c d e f g show ?thesis by blast
qed

text \<open>
  Claim C6 (decode preconditions). For a string argument, \<open>decode\<close> succeeds exactly
  when the string, with separators removed and upper-cased by \<open>toUpperCase\<close>, has 1 to
  10 code units, all of them symbols of the alphabet. Otherwise it fails: with the length
  error when that length is 0 or above 10, and else with the character error that
  carries the first code unit outside the alphabet and its 1-based position in the
  normalised string. Length, symbol and position are those of the upper-cased string: a
  sharp s counts as the two letters \<open>SS\<close>.
\<close>

theorem decode_preconditions:
  "((\<exists>d. decode (JString s) = Inr d) \<longleftrightarrow>
      1 \<le> length (toUpperCase (strip_hyphens s))
        \<and> length (toUpperCase (strip_hyphens s)) \<le> 10
        \<and> set (toUpperCase (strip_hyphens s)) \<subseteq> set (units DIGIPIN_CHARS))
   \<and> (\<not> (1 \<le> length (toUpperCase (strip_hyphens s))
           \<and> length (toUpperCase (strip_hyphens s)) \<le> 10) \<longrightarrow>
        decode (JString s) = Inl (LengthError (length (toUpperCase (strip_hyphens s)))))
   \<and> (1 \<le> length (toUpperCase (strip_hyphens s))
        \<and> length (toUpperCase (strip_hyphens s)) \<le> 10
        \<and> \<not> set (toUpperCase (strip_hyphens s)) \<subseteq> set (units DIGIPIN_CHARS) \<longrightarrow>
        (\<exists>i<length (toUpperCase (strip_hyphens s)).
            toUpperCase (strip_hyphens s) ! i \<notin> set (units DIGIPIN_CHARS)
          \<and> (\<forall>j<i. toUpperCase (strip_hyphens s) ! j \<in> set (units DIGIPIN_CHARS))
          \<and> decode (JString s) =
              Inl (CharacterError (toUpperCase (strip_hyphens s) ! i) (i + 1))))"
proof -
  define pin where "pin = toUpperCase (strip_hyphens s)"
  have len_bad: "decode (JString s) = Inl (LengthError (length pin))"
    if "\<not> (1 \<le> length pin \<and> length pin \<le> 10)"
    using that by (cases pin) (auto simp: decode_def pin_def[symmetric] Let_def)
  have ok: "\<exists>d. decode (JString s) = Inr d"
    if h: "1 \<le> length pin" "length pin \<le> 10" "set pin \<subseteq> set (units DIGIPIN_CHARS)"
  proof -
    obtain b where "decode_loop pin 0 BOUNDS = Inr b"
      using decode_loop_alphabet[OF h(3)] by blast
    then show ?thesis
      using h(1,2) by (auto simp: decode_def pin_def[symmetric] Let_def)
  qed
  have bad: "\<exists>i<length pin. pin ! i \<notin> set (units DIGIPIN_CHARS)
           \<and> (\<forall>j<i. pin ! j \<in> set (units DIGIPIN_CHARS))
           \<and> decode (JString s) = Inl (CharacterError (pin ! i) (i + 1))"
    if h: "1 \<le> length pin" "length pin \<le> 10" "\<not> set pin \<subseteq> set (units DIGIPIN_CHARS)"
  proof -
    from first_bad_symbol[OF h(3), of BOUNDS]
    obtain i where i: "i < length pin" "pin ! i \<notin> set (units DIGIPIN_CHARS)"
      "\<forall>j<i. pin ! j \<in> set (units DIGIPIN_CHARS)"
      "decode_loop pin 0 BOUNDS = Inl (CharacterError (pin ! i) (i + 1))"
      by blast
    have "decode (JString s) = Inl (CharacterError (pin ! i) (i + 1))"
      using h(1,2) i(4)
      by (auto simp: decode_def pin_def[symmetric] Let_def)
    with i show ?thesis by blast
  qed
  have "(\<exists>d. decode (JString s) = Inr d) \<longleftrightarrow>
      1 \<le> length pin \<and> length pin \<le> 10 \<and> set pin \<subseteq> set (units DIGIPIN_CHARS)"
    using ok len_bad bad by (metis Inl_Inr_False)
  with len_bad bad show ?thesis
    unfolding pin_def by blast
qed

theorem decode_preconditions_witness:
  "(\<exists>d. decode (JString ''39j-438'') = Inr d)
   \<and> decode (JString ''--'') = Inl (LengthError 0)
   \<and> decode (JString ''39j-43x'') = Inl (CharacterError (of_char (CHR ''X'')) 6)
   \<and> decode (JString
      [CHR ''F'', CHR ''F'', CHR ''F'', CHR ''F'', CHR ''F'', CHR ''F'', CHR ''F'', CHR ''F'',
       CHR ''F'', CHR 0xDF]) = Inl (LengthError 11)
   \<and> decode (JString [CHR 0xDF]) = Inl (CharacterError (of_char (CHR ''S'')) 1)
   \<and> decode (JString [CHR ''F'', CHR 0xE9]) = Inl (CharacterError (of_char (CHR 0xC9)) 2)"
proof -
  have a: "\<exists>d. decode (JString ''39j-438'') = Inr d"
    using decode_preconditions[of "''39j-438''"]
    by (simp add: pin_examples alphabet_units)
  have b: "decode (JString ''--'') = Inl (LengthError 0)"
    using decode_preconditions[of "''--''"]
    by (simp add: pin_examples)
  have c: "decode (JString ''39j-43x'') = Inl (CharacterError (of_char (CHR ''X'')) 6)"
  proof -
    have "\<not> set (toUpperCase (strip_hyphens ''39j-43x'')) \<subseteq> set (units DIGIPIN_CHARS)"
      by (simp add: pin_examples alphabet_units)
    moreover have "1 \<le> length (toUpperCase (strip_hyphens ''39j-43x''))
        \<and> length (toUpperCase (strip_hyphens ''39j-43x'')) \<le> 10"
      by (simp add: pin_examples)
    ultimately obtain i where i: "i < length [51, 57, 74, 52, 51, 88 :: nat]"
      "[51, 57, 74, 52, 51, 88] ! i \<notin> set (units DIGIPIN_CHARS)"
      and d: "decode (JString ''39j-43x'') = Inl (CharacterError ([51, 57, 74, 52, 51, 88] ! i) (i + 1))"
      using decode_preconditions[of "''39j-43x''"] unfolding pin_examples by blast
    from i(1) have "i = 0 \<or> i = 1 \<or> i = 2 \<or> i = 3 \<or> i = 4 \<or> i = 5"
      by (simp add: less_Suc_eq) arith
    with i(2) have "i = 5"
      by (auto simp: alphabet_units)
    with d show ?thesis
      by simp
  qed
  have d: "decode (JString
      [CHR ''F'', CHR ''F'', CHR ''F'', CHR ''F'', CHR ''F'', CHR ''F'', CHR ''F'', CHR ''F'',
       CHR ''F'', CHR 0xDF]) = Inl (LengthError 11)"
    using decode_preconditions[of "[CHR ''F'', CHR ''F'', CHR ''F'', CHR ''F'', CHR ''F'', CHR ''F'', CHR ''F'', CHR ''F'',  CHR ''F'', CHR 0xDF]"]
    by (simp add: pin_examples)
  have e: "decode (JString [CHR 0xDF]) = Inl (CharacterError (of_char (CHR ''S'')) 1)"
  proof -
    have "\<not> set (toUpperCase (strip_hyphens [CHR 0xDF])) \<subseteq> set (units DIGIPIN_CHARS)"
      by (simp add: pin_examples alphabet_units)
    moreover have "1 \<le> length (toUpperCase (strip_hyphens [CHR 0xDF]))
        \<and> length (toUpperCase (strip_hyphens [CHR 0xDF])) \<le> 10"
      by (simp add: pin_examples)
    ultimately obtain i where i: "i < length [83, 83 :: nat]"
      "\<forall>j<i. [83, 83 :: nat] ! j \<in> set (units DIGIPIN_CHARS)"
      and d: "decode (JString [CHR 0xDF]) = Inl (CharacterError ([83, 83] ! i) (i + 1))"
      using decode_preconditions[of "[CHR 0xDF]"] unfolding pin_examples by blast
    from i(1) have "i = 0 \<or> i = 1"
      by (simp add: less_Suc_eq)
    with i(2) have "i = 0"
      by (auto simp: alphabet_units)
    with d show ?thesis
      by simp
  qed
  have f: "decode (JString [CHR ''F'', CHR 0xE9]) = Inl (CharacterError (of_char (CHR 0xC9)) 2)"
  proof -
    have "\<not> set (toUpperCase (strip_hyphens [CHR ''F'', CHR 0xE9])) \<subseteq> set (units DIGIPIN_CHARS)"
      by (simp add: pin_examples alphabet_units)
    moreover have "1 \<le> length (toUpperCase (strip_hyphens [CHR ''F'', CHR 0xE9]))
        \<and> length (toUpperCase (strip_hyphens [CHR ''F'', CHR 0xE9])) \<le> 10"
      by (simp add: pin_examples)
    ultimately obtain i where i: "i < length [70, 201 :: nat]"
      "[70, 201] ! i \<notin> set (units DIGIPIN_CHARS)"
      and d: "decode (JString [CHR ''F'', CHR 0xE9]) = Inl (CharacterError ([70, 201] ! i) (i + 1))"
      using decode_preconditions[of "[CHR ''F'', CHR 0xE9]"] unfolding pin_examples by blast
    from i(1) have "i = 0 \<or> i = 1"
      by (simp add: less_Suc_eq)
    with i(2) have "i = 1"
      by (auto simp: alphabet_units)
    with d show ?thesis
      by simp
  qed
  from a b c d e f show ?thesis by blast
qed

text \<open>
  Claim C7 (monotonic nesting). For a valid code of at least two symbols, \<open>getParent\<close>
  returns a code that \<open>decode\<close> accepts, one level coarser, and the bounds of the code lie
  inside the bounds of its parent, with strict inequality on at least one edge.
\<close>

theorem monotonic_nesting:
  assumes "set (sanitize C) \<subseteq> set DIGIPIN_CHARS"
    and "2 \<le> length (sanitize C)" "length (sanitize C) \<le> 10"
  shows "\<exists>P dp dc. getParent C = Inr P
           \<and> decode (JString P) = Inr dp
           \<and> decode (JString C) = Inr dc
           \<and> precision dp + 1 = precision dc
           \<and> south (bounds dp) \<le> south (bounds dc) \<and> north (bounds dc) \<le> north (bounds dp)
           \<and> west (bounds dp) \<le> west (bounds dc) \<and> east (bounds dc) \<le> east (bounds dp)
           \<and> (south (bounds dp) < south (bounds dc) \<or> north (bounds dc) < north (bounds dp)
                \<or> west (bounds dp) < west (bounds dc) \<or> east (bounds dc) < east (bounds dp))"
proof -
  define pin where "pin = sanitize C"
  define P where "P = butlast (strip_hyphens C)"
  have len: "2 \<le> length pin" "length pin \<le> 10" and chars: "set pin \<subseteq> set DIGIPIN_CHARS"
    using assms by (simp_all add: pin_def)
  have parent: "getParent C = Inr P"
    using assms(2) by (simp add: getParent_def P_def sanitize_length)
  have sP: "sanitize P = butlast pin"
    by (simp add: P_def pin_def sanitize_butlast)
  have split: "pin = butlast pin @ [last pin]"
    using len(1) by (cases pin rule: rev_cases) auto
  have charsP: "set (sanitize P) \<subseteq> set DIGIPIN_CHARS"
    unfolding sP using chars by (auto dest: in_set_butlastD)
  have lenP: "1 \<le> length (sanitize P)" "length (sanitize P) \<le> 10"
    unfolding sP using len by simp_all
  from decode_valid[OF charsP lenP] obtain bp dp where
    bp: "decode_loop (units (butlast pin)) 0 BOUNDS = Inr bp" "aligned (length (butlast pin)) bp"
    and dp: "decode (JString P) = Inr dp" "precision dp = length (butlast pin)"
      "bounds dp = \<lparr>north = maxLat bp, south = minLat bp, east = maxLon bp, west = minLon bp\<rparr>"
    unfolding sP by blast
  from decode_valid[of C] assms obtain bc dc where
    bc: "decode_loop (units pin) 0 BOUNDS = Inr bc"
    and dc: "decode (JString C) = Inr dc" "precision dc = length pin"
      "bounds dc = \<lparr>north = maxLat bc, south = minLat bc, east = maxLon bc, west = minLon bc\<rparr>"
    unfolding pin_def by fastforce
  have "last pin \<in> set DIGIPIN_CHARS"
    using chars split by (metis in_set_conv_decomp subsetD)
  then obtain ri ci where pos: "CHAR_TO_POSITION (last pin) = Some (ri, ci)"
    using dom_CHAR_TO_POSITION by fastforce
  have rc: "ri < 4" "ci < 4"
    using position_grid[OF pos] by simp_all
  have "units pin = units (butlast pin) @ [of_char (last pin)]"
    by (subst split) (simp add: units_def)
  then have "decode_loop (units pin) 0 BOUNDS = Inr (decode_step bp ri ci)"
    by (simp add: decode_loop_append bp(1) position_of_char pos)
  with bc have bc': "bc = decode_step bp ri ci" by simp
  note n = decode_step_nested[OF aligned_proper[OF bp(2)] rc, folded bc']
  have prec: "precision dp + 1 = precision dc"
    using dp(2) dc(2) len(1) by simp
  have edges: "south (bounds dp) = minLat bp" "north (bounds dp) = maxLat bp"
    "west (bounds dp) = minLon bp" "east (bounds dp) = maxLon bp"
    "south (bounds dc) = minLat bc" "north (bounds dc) = maxLat bc"
    "west (bounds dc) = minLon bc" "east (bounds dc) = maxLon bc"
    by (simp_all add: dp(3) dc(3))
  have "getParent C = Inr P
      \<and> decode (JString P) = Inr dp
      \<and> decode (JString C) = Inr dc
      \<and> precision dp + 1 = precision dc
      \<and> south (bounds dp) \<le> south (bounds dc) \<and> north (bounds dc) \<le> north (bounds dp)
      \<and> west (bounds dp) \<le> west (bounds dc) \<and> east (bounds dc) \<le> east (bounds dp)
      \<and> (south (bounds dp) < south (bounds dc) \<or> north (bounds dc) < north (bounds dp)
           \<or> west (bounds dp) < west (bounds dc) \<or> east (bounds dc) < east (bounds dp))"
    unfolding edges using parent dp(1) dc(1) prec n by blast
  then show ?thesis by blast
qed

theorem monotonic_nesting_witness:
  "\<exists>P dp dc. getParent ''39-j'' = Inr P
     \<and> decode (JString P) = Inr dp
     \<and> decode (JString ''39-j'') = Inr dc
     \<and> precision dp + 1 = precision dc
     \<and> south (bounds dp) \<le> south (bounds dc) \<and> north (bounds dc) \<le> north (bounds dp)
     \<and> west (bounds dp) \<le> west (bounds dc) \<and> east (bounds dc) \<le> east (bounds dp)
     \<and> (south (bounds dp) < south (bounds dc) \<or> north (bounds dc) < north (bounds dp)
          \<or> west (bounds dp) < west (bounds dc) \<or> east (bounds dc) < east (bounds dp))"
proof -
  have "sanitize ''39-j'' = ''39J''"
    by (simp add: sanitize_def strip_hyphens_def ascii_upper_def)
  then show ?thesis
    using monotonic_nesting[of "''39-j''"]
    by (simp add: DIGIPIN_CHARS_def DIGIPIN_GRID_def)
qed

text \<open>
  Claim C8 (neighbour count). For every valid code \<open>getNeighbors\<close> returns a list and
  raises nothing; the list has at most 8 entries, exactly one for each of the eight
  compass offsets of the cell centre that lies inside the root rectangle (the others
  are dropped, and \<open>encode\<close> fails on none that is inside), and exactly 8 when no edge of
  the cell lies on an edge of the root rectangle.
\<close>

theorem neighbor_count_bound:
  assumes "set (sanitize code) \<subseteq> set DIGIPIN_CHARS"
    and "1 \<le> length (sanitize code)" "length (sanitize code) \<le> 10"
  shows "\<exists>d ns. decode (JString code) = Inr d
           \<and> getNeighbors (JString code) = Inr ns
           \<and> length ns \<le> 8
           \<and> length ns =
               length (filter (\<lambda>dir. inside BOUNDS (latitude d + fst dir) (longitude d + snd dir))
                 (directions (north (bounds d) - south (bounds d))
                             (east (bounds d) - west (bounds d))))
           \<and> (minLat BOUNDS < south (bounds d) \<and> north (bounds d) < maxLat BOUNDS
                \<and> minLon BOUNDS < west (bounds d) \<and> east (bounds d) < maxLon BOUNDS
              \<longrightarrow> length ns = 8)"
proof -
  from decode_valid[OF assms] obtain b d where
    al: "aligned (length (sanitize code)) b"
    and d: "decode (JString code) = Inr d" "precision d = length (sanitize code)"
      "latitude d = (minLat b + maxLat b) / 2" "longitude d = (minLon b + maxLon b) / 2"
      "bounds d = \<lparr>north = maxLat b, south = minLat b, east = maxLon b, west = minLon b\<rparr>"
    by blast
  define latStep where "latStep = north (bounds d) - south (bounds d)"
  define lonStep where "lonStep = east (bounds d) - west (bounds d)"
  define ns where "ns = fold (neighbor_visit (latitude d) (longitude d) (precision d))
                          (directions latStep lonStep) []"
  have get: "getNeighbors (JString code) = Inr ns"
    by (simp add: getNeighbors_def d(1) Let_def ns_def latStep_def lonStep_def)
  have prec: "1 \<le> precision d" "precision d \<le> 10"
    using assms(2,3) d(2) by simp_all
  have count: "length ns =
      length (filter (\<lambda>dir. inside BOUNDS (latitude d + fst dir) (longitude d + snd dir))
        (directions latStep lonStep))"
    unfolding ns_def using fold_neighbor_visit_length[OF prec] by simp
  have "length (directions latStep lonStep) = 8"
    by (simp add: directions_def)
  then have le: "length ns \<le> 8"
    unfolding count using length_filter_le[of _ "directions latStep lonStep"] by metis
  have interior: "length ns = 8"
    if h: "minLat BOUNDS < south (bounds d)" "north (bounds d) < maxLat BOUNDS"
      "minLon BOUNDS < west (bounds d)" "east (bounds d) < maxLon BOUNDS"
  proof -
    have e: "south (bounds d) = minLat b" "north (bounds d) = maxLat b"
      "west (bounds d) = minLon b" "east (bounds d) = maxLon b"
      by (simp_all add: d(5))
    note o = aligned_offsets_inside[OF al h[unfolded e]]
    have st: "latStep = maxLat b - minLat b" "lonStep = maxLon b - minLon b"
      by (simp_all add: latStep_def lonStep_def e)
    have lat: "minLat BOUNDS \<le> latitude d + latStep" "latitude d + latStep \<le> maxLat BOUNDS"
      "minLat BOUNDS \<le> latitude d" "latitude d \<le> maxLat BOUNDS"
      "minLat BOUNDS \<le> latitude d - latStep" "latitude d - latStep \<le> maxLat BOUNDS"
      using o(1,2,5) unfolding d(3) st by linarith+
    have lon: "minLon BOUNDS \<le> longitude d + lonStep" "longitude d + lonStep \<le> maxLon BOUNDS"
      "minLon BOUNDS \<le> longitude d" "longitude d \<le> maxLon BOUNDS"
      "minLon BOUNDS \<le> longitude d - lonStep" "longitude d - lonStep \<le> maxLon BOUNDS"
      using o(3,4,6) unfolding d(4) st by linarith+
    have "filter (\<lambda>dir. inside BOUNDS (latitude d + fst dir) (longitude d + snd dir))
        (directions latStep lonStep) = directions latStep lonStep"
      by (simp add: directions_def inside_def lat lon)
    then show ?thesis
      unfolding count by (simp add: directions_def)
  qed
  from d(1) get le count interior show ?thesis
    unfolding latStep_def lonStep_def by blast
qed

theorem neighbor_count_bound_witness:
  "(\<exists>ns. getNeighbors (JString ''3'') = Inr ns \<and> length ns = 8)
   \<and> (\<exists>ns. getNeighbors (JString ''F'') = Inr ns \<and> length ns = 3)"
proof -
  have s: "sanitize ''3'' = ''3''" "sanitize ''F'' = ''F''"
    by (simp_all add: sanitize_def strip_hyphens_def ascii_upper_def)
  have u: "toUpperCase (strip_hyphens ''3'') = units ''3''"
    "toUpperCase (strip_hyphens ''F'') = units ''F''"
    by (simp_all add: toUpperCase_def toUpperCase_unit_def strip_hyphens_def units_def)
  have v: "set ''3'' \<subseteq> set DIGIPIN_CHARS" "set ''F'' \<subseteq> set DIGIPIN_CHARS"
    by (simp_all add: DIGIPIN_CHARS_def DIGIPIN_GRID_def)
  from neighbor_count_bound[of "''3''"] s(1) v(1)
  obtain d ns where a: "decode (JString ''3'') = Inr d" "getNeighbors (JString ''3'') = Inr ns"
    and int: "minLat BOUNDS < south (bounds d) \<and> north (bounds d) < maxLat BOUNDS
                \<and> minLon BOUNDS < west (bounds d) \<and> east (bounds d) < maxLon BOUNDS
              \<longrightarrow> length ns = 8"
    by auto
  from decode_bounds[OF a(1)]
  have "south (bounds d) = 41 / 2" "north (bounds d) = 59 / 2"
    "west (bounds d) = 145 / 2" "east (bounds d) = 163 / 2"
    by (simp_all add: u decode_loop_units_Cons units_Nil CHAR_TO_POSITION_eq decode_step_def
          BOUNDS_def)
  with int have "length ns = 8"
    by (simp add: BOUNDS_def)
  with a(2) have three: "\<exists>ns. getNeighbors (JString ''3'') = Inr ns \<and> length ns = 8"
    by blast
  from neighbor_count_bound[of "''F''"] s(2) v(2)
  obtain e ms where b: "decode (JString ''F'') = Inr e" "getNeighbors (JString ''F'') = Inr ms"
    and cnt: "length ms =
               length (filter (\<lambda>dir. inside BOUNDS (latitude e + fst dir) (longitude e + snd dir))
                 (directions (north (bounds e) - south (bounds e))
                             (east (bounds e) - west (bounds e))))"
    by auto
  from decode_bounds[OF b(1)]
  have f: "south (bounds e) = 59 / 2" "north (bounds e) = 77 / 2"
    "west (bounds e) = 127 / 2" "east (bounds e) = 145 / 2"
    "latitude e = (south (bounds e) + north (bounds e)) / 2"
    "longitude e = (west (bounds e) + east (bounds e)) / 2"
    by (simp_all add: u decode_loop_units_Cons units_Nil CHAR_TO_POSITION_eq decode_step_def
          BOUNDS_def)
  have "length ms = 3"
    unfolding cnt f(5,6) f(1-4) by (simp add: directions_def inside_def BOUNDS_def)
  with b(2) have "\<exists>ns. getNeighbors (JString ''F'') = Inr ns \<and> length ns = 3"
    by blast
  with three show ?thesis by blast
qed

text \<open>
  Claim C9 (accuracy monotonicity). For a point of the root rectangle and two precisions
  \<open>p < q\<close>, the \<open>approximateMeters\<close> that \<open>decode\<close> reports for the code of precision
  \<open>q\<close> is strictly below the one for precision \<open>p\<close>. The value at precision \<open>n\<close> is
  111000 times the cell extent \<open>36 / 4 ^ n\<close> (the cosine factor never wins the maximum),
  and it is within 3 percent of the distance \<open>GRID_SIZES\<close> documents for that level:
  975.6 m against 1 km at level 6, 3.81 m against 3.8 m at level 10.
\<close>

theorem accuracy_monotonicity:
  fixes lat lon :: real and p q :: nat
  assumes "minLat BOUNDS \<le> lat" "lat \<le> maxLat BOUNDS"
    and "minLon BOUNDS \<le> lon" "lon \<le> maxLon BOUNDS"
    and "1 \<le> p" "p < q" "q \<le> 10"
  shows "\<exists>cp cq dp dq.
           encode (JNumber (Num lat)) (JNumber (Num lon)) (Num (real p)) = Inr cp
         \<and> encode (JNumber (Num lat)) (JNumber (Num lon)) (Num (real q)) = Inr cq
         \<and> decode (JString cp) = Inr dp \<and> precision dp = p
         \<and> decode (JString cq) = Inr dq \<and> precision dq = q
         \<and> approximateMeters (accuracy dq) < approximateMeters (accuracy dp)
         \<and> approximateMeters (accuracy dp) = 111000 * 36 / 4 ^ p
         \<and> approximateMeters (accuracy dq) = 111000 * 36 / 4 ^ q
         \<and> list_all (\<lambda>(level, width, distance).
                (level = p \<longrightarrow> \<bar>approximateMeters (accuracy dp) - distance\<bar> \<le> 3 / 100 * distance)
              \<and> (level = q \<longrightarrow> \<bar>approximateMeters (accuracy dq) - distance\<bar> \<le> 3 / 100 * distance))
              GRID_SIZES"
proof -
  have ins: "inside BOUNDS lat lon"
    using assms by (simp add: inside_def)
  from encode_decode_accuracy[OF ins, of p] assms(5,6,7)
  obtain cp dp where p: "encode (JNumber (Num lat)) (JNumber (Num lon)) (Num (real p)) = Inr cp"
    "decode (JString cp) = Inr dp" "precision dp = p"
    "approximateMeters (accuracy dp) = 3996000 / 4 ^ p"
    by auto
  from encode_decode_accuracy[OF ins, of q] assms(5,6,7)
  obtain cq dq where q: "encode (JNumber (Num lat)) (JNumber (Num lon)) (Num (real q)) = Inr cq"
    "decode (JString cq) = Inr dq" "precision dq = q"
    "approximateMeters (accuracy dq) = 3996000 / 4 ^ q"
    by auto
  have "(4::real) ^ p < 4 ^ q"
    using assms(6) by simp
  then have less: "approximateMeters (accuracy dq) < approximateMeters (accuracy dp)"
    unfolding p(4) q(4) by (simp add: frac_less2)
  have tab: "list_all (\<lambda>(level, width, distance).
                (level = p \<longrightarrow> \<bar>approximateMeters (accuracy dp) - distance\<bar> \<le> 3 / 100 * distance)
              \<and> (level = q \<longrightarrow> \<bar>approximateMeters (accuracy dq) - distance\<bar> \<le> 3 / 100 * distance))
              GRID_SIZES"
    using GRID_SIZES_tolerance unfolding p(4) q(4)
    by (auto simp: list_all_iff)
  have "approximateMeters (accuracy dp) = 111000 * 36 / 4 ^ p"
    "approximateMeters (accuracy dq) = 111000 * 36 / 4 ^ q"
    by (simp_all add: p(4) q(4))
  with p(1-3) q(1-3) less tab show ?thesis by blast
qed

theorem accuracy_monotonicity_witness:
  "\<exists>cp cq dp dq.
       encode (JNumber (Num 28.6139)) (JNumber (Num 77.2090)) (Num 6) = Inr cp
     \<and> encode (JNumber (Num 28.6139)) (JNumber (Num 77.2090)) (Num 10) = Inr cq
     \<and> decode (JString cp) = Inr dp \<and> precision dp = 6
     \<and> decode (JString cq) = Inr dq \<and> precision dq = 10
     \<and> approximateMeters (accuracy dq) < approximateMeters (accuracy dp)
     \<and> approximateMeters (accuracy dp) = 249750 / 256
     \<and> approximateMeters (accuracy dq) = 249750 / 65536
     \<and> \<bar>approximateMeters (accuracy dp) - 1000\<bar> \<le> 30
     \<and> \<bar>approximateMeters (accuracy dq) - 3.8\<bar> \<le> 0.114"
proof -
  from accuracy_monotonicity[of "28.6139" "77.2090" 6 10]
  obtain cp cq dp dq where
    h: "encode (JNumber (Num 28.6139)) (JNumber (Num 77.2090)) (Num 6) = Inr cp"
      "encode (JNumber (Num 28.6139)) (JNumber (Num 77.2090)) (Num 10) = Inr cq"
      "decode (JString cp) = Inr dp" "precision dp = 6"
      "decode (JString cq) = Inr dq" "precision dq = 10"
      "approximateMeters (accuracy dq) < approximateMeters (accuracy dp)"
      "approximateMeters (accuracy dp) = 249750 / 256"
      "approximateMeters (accuracy dq) = 249750 / 65536"
    by (auto simp: BOUNDS_def)
  have "\<bar>approximateMeters (accuracy dp) - 1000\<bar> \<le> 30"
    "\<bar>approximateMeters (accuracy dq) - 3.8\<bar> \<le> 0.114"
    unfolding h(8,9) by simp_all
  with h show ?thesis by blast
qed

text \<open>
  Claim C10 (no validation in parent and children). \<open>getParent\<close> fails exactly when
  the separator-stripped code has at most one symbol and otherwise returns that code
  without its last symbol, whatever the symbols are; \<open>getChildren\<close> fails exactly when
  the stripped code has ten symbols or more. Neither looks a symbol up in the alphabet.
\<close>

theorem parent_children_raise_on_length_only:
  "getParent code =
     (if length (strip_hyphens code) \<le> 1 then Inl NoParentError
      else Inr (butlast (strip_hyphens code)))
   \<and> ((\<exists>e. getParent code = Inl e) \<longleftrightarrow> length (strip_hyphens code) \<le> 1)
   \<and> ((\<exists>e. getChildren code = Inl e) \<longleftrightarrow> length (strip_hyphens code) \<ge> 10)
   \<and> ((\<exists>ks. getChildren code = Inr ks) \<longleftrightarrow> length (strip_hyphens code) < 10)"
  by (auto simp: getParent_def getChildren_def Let_def)

theorem parent_children_raise_on_length_only_witness:
  "getParent ''xy-!'' = Inr ''xy''
   \<and> (\<exists>ks. getChildren ''xy-!'' = Inr ks)
   \<and> (\<exists>e. getParent ''-F-'' = Inl e)
   \<and> (\<exists>e. getChildren ''FFF-FFF-FFFF'' = Inl e)"
  using parent_children_raise_on_length_only[of "''xy-!''"]
    parent_children_raise_on_length_only[of "''-F-''"]
    parent_children_raise_on_length_only[of "''FFF-FFF-FFFF''"]
  by (simp add: strip_hyphens_def)

end
